theory Spec2Isabelle
  imports Complex_Main "HOL-Library.Word" "HOL-Library.Sublist" "HOL-Library.AList"
begin

unbundle bit_operations_syntax

section \<open>Common definitions\<close>

text \<open>
  The Python exceptions that the modelled code can raise.  A function that may raise
  returns \<open>error + 'a\<close>, with \<open>Inl\<close> for the exception.  \<open>IllTyped\<close> is not a Python
  exception: it marks the point where a value does not have the type its annotation
  declares, which Python does not check and the typed model does not follow further.
\<close>

datatype error =
    ValueError
  | KeyError
  | TypeError
  | EOFError
  | JSONDecodeError
  | UnicodeDecodeError
  | AttributeError
  | InvalidOperation
  | Overflow
  | IllTyped

text \<open>
  Python's \<open>str(n)\<close> for an integer: decimal digits, most significant first, with a
  leading minus sign for a negative number.
\<close>

definition digit_char :: "nat \<Rightarrow> char" where
  "digit_char d = ''0123456789'' ! (d mod 10)"

fun str_nat :: "nat \<Rightarrow> string" where
  "str_nat n = (if n < 10 then [digit_char n] else str_nat (n div 10) @ [digit_char (n mod 10)])"

declare str_nat.simps [simp del]

definition str_int :: "int \<Rightarrow> string" where
  "str_int i = (if i < 0 then CHR ''-'' # str_nat (nat (- i)) else str_nat (nat i))"

section \<open>Lesson 2: the smart fan simulator\<close>

definition MODE_LABELS :: "int \<rightharpoonup> string" where
  "MODE_LABELS = [0 \<mapsto> ''switched off'', 1 \<mapsto> ''speed 1'', 2 \<mapsto> ''speed 2'', 3 \<mapsto> ''turbo mode'']"

definition MIN_MODE :: int where
  "MIN_MODE = 0"

definition MAX_MODE :: int where
  "MAX_MODE = 3"

record event =
  timestamp :: real
  action :: string
  old_mode :: int
  new_mode :: int

text \<open>
  \<open>Stats\<close>: both dictionaries start with the keys of \<open>MODE_LABELS\<close>.  Time stamps are
  Python floats; they are modelled as reals, the fan's mode never depends on them.
\<close>

record stats =
  mode_changes :: "int \<rightharpoonup> int"
  time_in_mode_s :: "int \<rightharpoonup> real"
  last_mode :: int
  last_ts :: "real option"

definition new_stats :: stats where
  "new_stats = \<lparr> mode_changes = (\<lambda>m. if m \<in> dom MODE_LABELS then Some 0 else None),
                 time_in_mode_s = (\<lambda>m. if m \<in> dom MODE_LABELS then Some 0 else None),
                 last_mode = 0, last_ts = None \<rparr>"

definition stats_start :: "int \<Rightarrow> real \<Rightarrow> stats \<Rightarrow> stats" where
  "stats_start initial_mode ts st =
     (let st1 = st\<lparr> last_mode := initial_mode, last_ts := Some ts \<rparr>
      in case mode_changes st1 initial_mode of
           Some c \<Rightarrow> st1\<lparr> mode_changes := (mode_changes st1)(initial_mode \<mapsto> c + 1) \<rparr>
         | None \<Rightarrow> st1)"

text \<open>
  \<open>Stats.on_mode_change\<close>: \<open>self.time_in_mode_s[old_mode] += ...\<close> raises KeyError when
  \<open>old_mode\<close> is not a key.
\<close>

definition on_mode_change :: "int \<Rightarrow> int \<Rightarrow> real \<Rightarrow> stats \<Rightarrow> error + stats" where
  "on_mode_change old new ts st =
     (case (case last_ts st of
              None \<Rightarrow> Inr st
            | Some lt \<Rightarrow>
                (case time_in_mode_s st old of
                   None \<Rightarrow> Inl KeyError
                 | Some t \<Rightarrow> Inr (st\<lparr> time_in_mode_s := (time_in_mode_s st)(old \<mapsto> t + (ts - lt)) \<rparr>)))
      of Inl e \<Rightarrow> Inl e
       | Inr st1 \<Rightarrow>
           (let st2 = st1\<lparr> last_mode := new, last_ts := Some ts \<rparr>
            in case mode_changes st2 new of
                 Some c \<Rightarrow> Inr (st2\<lparr> mode_changes := (mode_changes st2)(new \<mapsto> c + 1) \<rparr>)
               | None \<Rightarrow> Inr st2))"

text \<open>
  \<open>SmartFanApp\<close>.  The field \<open>fan_mode\<close> is \<open>self.fan.mode\<close>.  The callable \<open>now\<close> is
  modelled by the sequence of its readings (\<open>clock\<close>) and the number of calls made so far
  (\<open>ticks\<close>).  The logger only writes a log file and is left out.
\<close>

record smart_fan_app =
  fan_mode :: int
  app_stats :: stats
  history :: "event list"
  clock :: "nat \<Rightarrow> real"
  ticks :: nat

text \<open>\<open>Fan.set_mode\<close> on the mode held by the fan.\<close>

definition fan_set_mode :: "int \<Rightarrow> int \<Rightarrow> error + int" where
  "fan_set_mode new mode =
     (if new < MIN_MODE \<or> new > MAX_MODE then Inl ValueError else Inr new)"

definition fan_status :: "int \<Rightarrow> string" where
  "fan_status mode = (case MODE_LABELS mode of Some l \<Rightarrow> l | None \<Rightarrow> ''unknown mode'')"

definition now :: "smart_fan_app \<Rightarrow> real \<times> smart_fan_app" where
  "now app = (clock app (ticks app), app\<lparr> ticks := ticks app + 1 \<rparr>)"

text \<open>\<open>SmartFanApp()\<close> with the default \<open>Fan()\<close> and \<open>Stats()\<close>, followed by \<open>__post_init__\<close>.\<close>

definition new_app :: "(nat \<Rightarrow> real) \<Rightarrow> smart_fan_app" where
  "new_app clk =
     (let app0 = \<lparr> fan_mode = 0, app_stats = new_stats, history = [], clock = clk, ticks = 0 \<rparr>;
          (ts, app1) = now app0
      in app1\<lparr> app_stats := stats_start (fan_mode app1) ts (app_stats app1) \<rparr>)"

definition log_event :: "string \<Rightarrow> int \<Rightarrow> int \<Rightarrow> smart_fan_app \<Rightarrow> smart_fan_app" where
  "log_event act old new app =
     (let (ts, app1) = now app
      in app1\<lparr> history := history app1 @
                 [\<lparr> timestamp = ts, action = act, old_mode = old, new_mode = new \<rparr>] \<rparr>)"

text \<open>
  \<open>SmartFanApp._change_mode\<close>.  The result pairs what the call returns or raises with
  the state of the application at that moment.
\<close>

definition change_mode :: "int \<Rightarrow> string \<Rightarrow> smart_fan_app \<Rightarrow> (error + string) \<times> smart_fan_app" where
  "change_mode new act app =
     (let old = fan_mode app
      in if new = old
         then (Inr (''No change: '' @ str_int old @ '' ('' @ fan_status (fan_mode app) @ '')''), app)
         else
           (case fan_set_mode new (fan_mode app) of
              Inl e \<Rightarrow> (Inl e, app)
            | Inr m \<Rightarrow>
                (let app1 = app\<lparr> fan_mode := m \<rparr>;
                     (ts, app2) = now app1
                 in case on_mode_change old new ts (app_stats app2) of
                      Inl e \<Rightarrow> (Inl e, app2)
                    | Inr st \<Rightarrow>
                        (let app3 = log_event act old new (app2\<lparr> app_stats := st \<rparr>)
                         in (Inr (''Mode: '' @ str_int (fan_mode app3) @ '' ('' @
                                  fan_status (fan_mode app3) @ '')''), app3)))))"

definition set_mode :: "int \<Rightarrow> smart_fan_app \<Rightarrow> (error + string) \<times> smart_fan_app" where
  "set_mode new app = change_mode new ''SET'' app"

definition up :: "smart_fan_app \<Rightarrow> (error + string) \<times> smart_fan_app" where
  "up app =
     (let new = fan_mode app + 1;
          new = (if new > MAX_MODE then MAX_MODE else new)
      in change_mode new ''UP'' app)"

definition down :: "smart_fan_app \<Rightarrow> (error + string) \<times> smart_fan_app" where
  "down app =
     (let new = fan_mode app - 1;
          new = (if new < MIN_MODE then MIN_MODE else new)
      in change_mode new ''DOWN'' app)"

text \<open>
  A caller's sequence of calls.  A call that raises leaves the application in the state
  it had when the exception was raised, and the caller goes on (as \<open>run_cli\<close> does after
  a ValueError).
\<close>

datatype call = Up | Down | SetMode int

fun do_call :: "call \<Rightarrow> smart_fan_app \<Rightarrow> (error + string) \<times> smart_fan_app" where
  "do_call Up app = up app"
| "do_call Down app = down app"
| "do_call (SetMode m) app = set_mode m app"

definition do_calls :: "call list \<Rightarrow> smart_fan_app \<Rightarrow> smart_fan_app" where
  "do_calls cs app = foldl (\<lambda>s c. snd (do_call c s)) app cs"

definition fan_inv :: "smart_fan_app \<Rightarrow> bool" where
  "fan_inv app \<longleftrightarrow>
     MIN_MODE \<le> fan_mode app \<and> fan_mode app \<le> MAX_MODE \<and>
     dom (time_in_mode_s (app_stats app)) = {0, 1, 2, 3}"

section \<open>Lesson 1: text, streams and the world of the ATM\<close>

text \<open>
  A Python string is modelled as a HOL string whose characters are the code points below
  256 (ASCII and Latin-1), so \<open>length\<close> is Python's \<open>len\<close>.  The message literals of the
  source are Russian; they are only ever printed, and are written here in Latin
  transliteration.
\<close>

abbreviation NL :: char where
  "NL \<equiv> CHR 0x0A"

abbreviation CR :: char where
  "CR \<equiv> CHR 0x0D"

text \<open>\<open>str.isspace\<close> and \<open>str.isdigit\<close> on one code point below 256.\<close>

definition is_space :: "char \<Rightarrow> bool" where
  "is_space c \<longleftrightarrow> (of_char c :: nat) \<in> {9, 10, 11, 12, 13, 28, 29, 30, 31, 32, 133, 160}"

definition is_digit_char :: "char \<Rightarrow> bool" where
  "is_digit_char c \<longleftrightarrow>
     (48 \<le> (of_char c :: nat) \<and> (of_char c :: nat) \<le> 57) \<or> (of_char c :: nat) \<in> {178, 179, 185}"

definition strip :: "string \<Rightarrow> string" where
  "strip s = rev (dropWhile is_space (rev (dropWhile is_space s)))"

definition isdigit :: "string \<Rightarrow> bool" where
  "isdigit s \<longleftrightarrow> s \<noteq> [] \<and> list_all is_digit_char s"

text \<open>\<open>sep.join(parts)\<close>.\<close>

fun join :: "string \<Rightarrow> string list \<Rightarrow> string" where
  "join sep [] = []"
| "join sep [x] = x"
| "join sep (x # y # ys) = x @ sep @ join sep (y # ys)"

text \<open>\<open>s.zfill(width)\<close>: zeros are inserted after a leading sign.\<close>

definition zfill :: "nat \<Rightarrow> string \<Rightarrow> string" where
  "zfill width s =
     (case s of
        c # cs \<Rightarrow>
          (if c = CHR ''+'' \<or> c = CHR ''-''
           then c # replicate (width - length s) CHR ''0'' @ cs
           else replicate (width - length s) CHR ''0'' @ s)
      | [] \<Rightarrow> replicate width CHR ''0'')"

text \<open>A JSON value as \<open>json.load\<close> returns it; a dict keeps its keys in insertion order.\<close>

datatype json =
    JNull
  | JBool bool
  | JInt int
  | JFloat real
  | JStr string
  | JArr "json list"
  | JObj "(string \<times> json) list"

text \<open>
  The backing file, described by what \<open>os.path.exists\<close>, \<open>open(path, "r", encoding="utf-8")\<close>
  and \<open>json.load\<close> make of it:
  \<^item> \<open>NoFile\<close>: it does not exist;
  \<^item> \<open>NotUtf8\<close>: its bytes are not UTF-8 text (reading it raises UnicodeDecodeError);
  \<^item> \<open>NotJson\<close>: its bytes are UTF-8 text, and the text is not a JSON document
    (\<open>json.load\<close> raises JSONDecodeError);
  \<^item> \<open>Json v\<close>: its text is a JSON document, which \<open>json.load\<close> reads as the value \<open>v\<close>.
\<close>

datatype file_state = NoFile | NotUtf8 | NotJson | Json json

text \<open>
  Everything outside the program that the ATM reads or writes:
  \<^item> \<open>stdin_lines\<close>: the results of the successive \<open>sys.stdin.readline()\<close> calls to come
    (after the last one \<open>readline\<close> returns the empty string),
  \<^item> \<open>stdout_text\<close>: the text written to \<open>sys.stdout\<close> so far,
  \<^item> \<open>disk\<close>: the storage file,
  \<^item> \<open>entropy\<close>, \<open>entropy_pos\<close>: the random source behind the \<open>secrets\<close> module and how
    much of it has been used,
  \<^item> \<open>clock_iso\<close>, \<open>clock_pos\<close>: the text \<open>datetime.now(timezone.utc).isoformat(...)\<close> of
    the successive readings of the clock,
  \<^item> \<open>eof_seen\<close>: a history variable, set when \<open>stdin\<close> raises EOFError.
\<close>

record world =
  stdin_lines :: "string list"
  stdout_text :: string
  disk :: file_state
  entropy :: "nat \<Rightarrow> nat"
  entropy_pos :: nat
  clock_iso :: "nat \<Rightarrow> string"
  clock_pos :: nat
  eof_seen :: bool

definition readline :: "world \<Rightarrow> string \<times> world" where
  "readline w = (case stdin_lines w of [] \<Rightarrow> ([], w) | l # ls \<Rightarrow> (l, w\<lparr> stdin_lines := ls \<rparr>))"

text \<open>\<open>lesson1.io.stdout\<close>; the arguments are given after \<open>str()\<close>.  Flushing is not modelled.\<close>

definition stdout :: "string list \<Rightarrow> string \<Rightarrow> string \<Rightarrow> world \<Rightarrow> world" where
  "stdout args sep ending w = w\<lparr> stdout_text := stdout_text w @ (join sep args @ ending) \<rparr>"

text \<open>The part of \<open>lesson1.io.stdin\<close> after \<open>readline\<close>: what it does with the line read.\<close>

definition chop_newline :: "string \<Rightarrow> string" where
  "chop_newline line =
     (if line \<noteq> [] \<and> last line = NL
      then (let line1 = butlast line
            in if line1 \<noteq> [] \<and> last line1 = CR then butlast line1 else line1)
      else line)"

definition stdin_result :: "string \<Rightarrow> error + string" where
  "stdin_result line = (if line = [] then Inl EOFError else Inr (chop_newline line))"

definition stdin :: "string \<Rightarrow> world \<Rightarrow> (error + string) \<times> world" where
  "stdin prompt w =
     (let prompt_text = (if prompt \<noteq> [] then prompt @ NL # ''>>>'' else ''>>>'');
          w1 = stdout [prompt_text] '' '' '' '' w;
          (line, w2) = readline w1
      in case stdin_result line of
           Inl e \<Rightarrow> (Inl e, w2\<lparr> eof_seen := True \<rparr>)
         | Inr s \<Rightarrow> (Inr s, w2))"

section \<open>Lesson 1: the console view\<close>

definition show_title :: "world \<Rightarrow> world" where
  "show_title w =
     stdout [replicate 44 CHR ''=''] '' '' [NL]
       (stdout [''  Tel-Tan ATM - uchebnyj bankomat (MVC)''] '' '' [NL]
         (stdout [replicate 44 CHR ''=''] '' '' [NL] w))"

definition pause :: "string \<Rightarrow> world \<Rightarrow> world" where
  "pause message w = snd (readline (stdout [message] '' '' [] w))"

definition info :: "string \<Rightarrow> world \<Rightarrow> world" where
  "info message w = stdout [message] '' '' [NL] w"

definition warn :: "string \<Rightarrow> world \<Rightarrow> world" where
  "warn message w = stdout [''[!]'' @ (if message \<noteq> [] then '' '' else []) @ message] '' '' [NL] w"

definition error :: "string \<Rightarrow> world \<Rightarrow> world" where
  "error message w = stdout [''[Oshibka] '' @ message] '' '' [NL] w"

lemma stdout_fields [simp]:
  "stdin_lines (stdout a s e w) = stdin_lines w"
  "disk (stdout a s e w) = disk w"
  "entropy (stdout a s e w) = entropy w"
  "entropy_pos (stdout a s e w) = entropy_pos w"
  "clock_iso (stdout a s e w) = clock_iso w"
  "clock_pos (stdout a s e w) = clock_pos w"
  "eof_seen (stdout a s e w) = eof_seen w"
  by (simp_all add: stdout_def)

lemma info_fields [simp]:
  "stdin_lines (info m w) = stdin_lines w"
  "disk (info m w) = disk w"
  "entropy (info m w) = entropy w"
  "entropy_pos (info m w) = entropy_pos w"
  "clock_iso (info m w) = clock_iso w"
  "clock_pos (info m w) = clock_pos w"
  "eof_seen (info m w) = eof_seen w"
  by (simp_all add: info_def)

lemma warn_fields [simp]:
  "stdin_lines (warn m w) = stdin_lines w"
  "disk (warn m w) = disk w"
  "entropy (warn m w) = entropy w"
  "entropy_pos (warn m w) = entropy_pos w"
  "clock_iso (warn m w) = clock_iso w"
  "clock_pos (warn m w) = clock_pos w"
  "eof_seen (warn m w) = eof_seen w"
  by (simp_all add: warn_def)

lemma error_fields [simp]:
  "stdin_lines (error m w) = stdin_lines w"
  "disk (error m w) = disk w"
  "entropy (error m w) = entropy w"
  "entropy_pos (error m w) = entropy_pos w"
  "clock_iso (error m w) = clock_iso w"
  "clock_pos (error m w) = clock_pos w"
  "eof_seen (error m w) = eof_seen w"
  by (simp_all add: error_def)

lemma stdin_fields [simp]:
  "disk (snd (stdin p w)) = disk w"
  "entropy (snd (stdin p w)) = entropy w"
  "entropy_pos (snd (stdin p w)) = entropy_pos w"
  "clock_iso (snd (stdin p w)) = clock_iso w"
  "clock_pos (snd (stdin p w)) = clock_pos w"
  by (simp_all add: stdin_def readline_def Let_def split: list.splits sum.splits)

lemma stdin_consumes:
  assumes "stdin p w = (Inr s, w1)"
  shows "length (stdin_lines w1) < length (stdin_lines w)"
  using assms
  by (auto simp: stdin_def readline_def stdin_result_def Let_def split: list.splits if_splits)

lemma stdin_never_longer: "length (stdin_lines (snd (stdin p w))) \<le> length (stdin_lines w)"
  by (auto simp: stdin_def readline_def stdin_result_def Let_def split: list.splits if_splits)

function ask_text :: "string \<Rightarrow> int \<Rightarrow> world \<Rightarrow> (error + string) \<times> world" where
  "ask_text prompt min_len w =
     (case stdin prompt w of
        (Inl e, w1) \<Rightarrow> (Inl e, w1)
      | (Inr line, w1) \<Rightarrow>
          (let s = strip line
           in if int (length s) \<ge> min_len then (Inr s, w1)
              else ask_text prompt min_len
                     (error (''Vvedite minimum '' @ str_int min_len @ '' simvol(a/ov).'') w1)))"
  by pat_completeness auto
termination
  by (relation "measure (\<lambda>(p, m, w). length (stdin_lines w))") (auto dest: stdin_consumes [OF sym])

function ask_digits :: "string \<Rightarrow> int \<Rightarrow> int option \<Rightarrow> world \<Rightarrow> (error + string) \<times> world" where
  "ask_digits prompt min_len max_len w =
     (case stdin prompt w of
        (Inl e, w1) \<Rightarrow> (Inl e, w1)
      | (Inr line, w1) \<Rightarrow>
          (let s = strip line
           in if \<not> isdigit s
              then ask_digits prompt min_len max_len (error ''Razresheny tol'ko cifry.'' w1)
              else if int (length s) < min_len
              then ask_digits prompt min_len max_len
                     (error (''Minimum '' @ str_int min_len @ '' cifr.'') w1)
              else if max_len \<noteq> None \<and> int (length s) > the max_len
              then ask_digits prompt min_len max_len
                     (error (''Maksimum '' @ str_int (the max_len) @ '' cifr.'') w1)
              else (Inr s, w1)))"
  by pat_completeness auto
termination
  by (relation "measure (\<lambda>(p, mn, mx, w). length (stdin_lines w))") (auto dest: stdin_consumes [OF sym])

declare ask_text.simps [simp del] ask_digits.simps [simp del]

lemma ask_digits_consumes:
  "ask_digits p mn mx w = (Inr s, w1) \<Longrightarrow> length (stdin_lines w1) < length (stdin_lines w)"
proof (induction "length (stdin_lines w)" arbitrary: w rule: less_induct)
  case less
  obtain r w0 where st: "stdin p w = (r, w0)" by (cases "stdin p w")
  show ?case
  proof (cases r)
    case (Inl e)
    with st less.prems show ?thesis by (simp add: ask_digits.simps [of p mn mx w])
  next
    case (Inr line)
    have lt: "length (stdin_lines w0) < length (stdin_lines w)"
      using st unfolding Inr by (rule stdin_consumes)
    have again: "length (stdin_lines w1) < length (stdin_lines w)"
      if "ask_digits p mn mx (error m w0) = (Inr s, w1)" for m
      using less.hyps [of "error m w0", OF _ that] lt by simp
    from less.prems have "ask_digits p mn mx w = (Inr s, w1)" .
    with lt show ?thesis
      by (subst (asm) ask_digits.simps)
         (auto simp: st Inr Let_def again split: if_splits)
  qed
qed

text \<open>\<open>ask_pin_create\<close>: the PIN is asked twice, until both entries agree.\<close>

function ask_pin_create_loop :: "world \<Rightarrow> (error + string) \<times> world" where
  "ask_pin_create_loop w =
     (case ask_digits ''Vvedite PIN'' 4 (Some 8) w of
        (Inl e, w1) \<Rightarrow> (Inl e, w1)
      | (Inr pin1, w1) \<Rightarrow>
          (case ask_digits ''Povtorite PIN'' 4 (Some 8) w1 of
             (Inl e, w2) \<Rightarrow> (Inl e, w2)
           | (Inr pin2, w2) \<Rightarrow>
               if pin1 = pin2 then (Inr pin1, w2)
               else ask_pin_create_loop (error ''PIN ne sovpadaet. Poprobujte eshchyo raz.'' w2)))"
  by pat_completeness auto
termination
  by (relation "measure (\<lambda>w. length (stdin_lines w))")
     (auto dest!: ask_digits_consumes [OF sym])

declare ask_pin_create_loop.simps [simp del]

definition ask_pin_create :: "world \<Rightarrow> (error + string) \<times> world" where
  "ask_pin_create w = ask_pin_create_loop (info ''Sozdajte PIN-kod (4-8 cifr).'' w)"

definition ask_pin_login :: "world \<Rightarrow> (error + string) \<times> world" where
  "ask_pin_login w = ask_digits ''Vvedite PIN'' 4 (Some 8) w"

text \<open>\<open>format_money\<close>: the format \<open>02d\<close> pads the remainder to two digits.\<close>

definition format_money :: "int \<Rightarrow> string" where
  "format_money cents =
     (let sign = (if cents < 0 then ''-'' else []);
          cents_abs = \<bar>cents\<bar>
      in sign @ str_int (cents_abs div 100) @ ''.'' @ zfill 2 (str_int (cents_abs mod 100)))"

definition show_account_created :: "string \<Rightarrow> world \<Rightarrow> world" where
  "show_account_created account_number w =
     info []
       (info (''Vash nomer scheta: '' @ account_number)
         (warn ''VNIMANIE: nomer scheta pokazyvaetsya tol'ko odin raz.''
           (info ''Schet sozdan''
             (info [] w))))"

definition show_balance :: "int \<Rightarrow> world \<Rightarrow> world" where
  "show_balance balance_cents w = info (''Tekushchij balans: '' @ format_money balance_cents) w"

definition menu_startup :: "world \<Rightarrow> (error + string) \<times> world" where
  "menu_startup w =
     (let w1 = stdout [[]] '' '' [NL] w;
          w2 = stdout [''1) Sozdat' novyj schet''] '' '' [NL] w1;
          w3 = stdout [''2) Vojti v sushchestvuyushchij schet''] '' '' [NL] w2;
          w4 = stdout [''0) Vyhod''] '' '' [NL] w3
      in case stdin ''Vyberite dejstvie'' w4 of
           (Inl e, w5) \<Rightarrow> (Inl e, w5)
         | (Inr line, w5) \<Rightarrow> (Inr (strip line), w5))"

definition menu_main :: "world \<Rightarrow> (error + string) \<times> world" where
  "menu_main w =
     (let w1 = stdout [[]] '' '' [NL] w;
          w2 = stdout [''1) Vnesti den'gi na schet''] '' '' [NL] w1;
          w3 = stdout [''2) Snyat' den'gi so scheta''] '' '' [NL] w2;
          w4 = stdout [''3) Pokazat' balans''] '' '' [NL] w3;
          w5 = stdout [''0) Vyhod''] '' '' [NL] w4
      in case stdin ''Vyberite dejstvie'' w5 of
           (Inl e, w6) \<Rightarrow> (Inl e, w6)
         | (Inr line, w6) \<Rightarrow> (Inr (strip line), w6))"

section \<open>Lesson 1: the account and its storage\<close>

record account =
  account_number :: string
  name :: string
  surname :: string
  id_number :: string
  pin_salt_hex :: string
  pin_hash_hex :: string
  balance_cents :: int
  created_at :: string

text \<open>\<open>dataclasses.asdict(account)\<close>.\<close>

definition asdict :: "account \<Rightarrow> json" where
  "asdict a = JObj
     [(''account_number'', JStr (account_number a)),
      (''name'', JStr (name a)),
      (''surname'', JStr (surname a)),
      (''id_number'', JStr (id_number a)),
      (''pin_salt_hex'', JStr (pin_salt_hex a)),
      (''pin_hash_hex'', JStr (pin_hash_hex a)),
      (''balance_cents'', JInt (balance_cents a)),
      (''created_at'', JStr (created_at a))]"

definition field_names :: "string list" where
  "field_names = [''account_number'', ''name'', ''surname'', ''id_number'', ''pin_salt_hex'',
                  ''pin_hash_hex'', ''balance_cents'', ''created_at'']"

definition required_fields :: "string list" where
  "required_fields = [''account_number'', ''name'', ''surname'', ''id_number'', ''pin_salt_hex'',
                      ''pin_hash_hex'']"

fun str_value :: "json option \<Rightarrow> string option \<Rightarrow> string option" where
  "str_value None dflt = dflt"
| "str_value (Some (JStr s)) dflt = Some s"
| "str_value (Some _) dflt = None"

fun int_value :: "json option \<Rightarrow> int option \<Rightarrow> int option" where
  "int_value None dflt = dflt"
| "int_value (Some (JInt i)) dflt = Some i"
| "int_value (Some _) dflt = None"

text \<open>
  \<open>Account(**raw)\<close>: TypeError when \<open>raw\<close> is not a mapping, has a key that is not a
  field, or lacks a field without default; \<open>balance_cents\<close> defaults to 0 and \<open>created_at\<close>
  to the empty string.  The dataclass does not check the types of the values.
\<close>

definition Account :: "json \<Rightarrow> error + account" where
  "Account raw =
     (case raw of
        JObj kvs \<Rightarrow>
          if \<not> list_all (\<lambda>k. k \<in> set field_names) (map fst kvs) then Inl TypeError
          else if \<not> list_all (\<lambda>k. map_of kvs k \<noteq> None) required_fields then Inl TypeError
          else
            (case str_value (map_of kvs ''account_number'') None of None \<Rightarrow> Inl IllTyped | Some an \<Rightarrow>
             case str_value (map_of kvs ''name'') None of None \<Rightarrow> Inl IllTyped | Some nm \<Rightarrow>
             case str_value (map_of kvs ''surname'') None of None \<Rightarrow> Inl IllTyped | Some sn \<Rightarrow>
             case str_value (map_of kvs ''id_number'') None of None \<Rightarrow> Inl IllTyped | Some idn \<Rightarrow>
             case str_value (map_of kvs ''pin_salt_hex'') None of None \<Rightarrow> Inl IllTyped | Some sh \<Rightarrow>
             case str_value (map_of kvs ''pin_hash_hex'') None of None \<Rightarrow> Inl IllTyped | Some hh \<Rightarrow>
             case int_value (map_of kvs ''balance_cents'') (Some 0) of None \<Rightarrow> Inl IllTyped | Some b \<Rightarrow>
             case str_value (map_of kvs ''created_at'') (Some []) of None \<Rightarrow> Inl IllTyped | Some ca \<Rightarrow>
               Inr \<lparr> account_number = an, name = nm, surname = sn, id_number = idn,
                     pin_salt_hex = sh, pin_hash_hex = hh, balance_cents = b, created_at = ca \<rparr>)
      | _ \<Rightarrow> Inl TypeError)"

text \<open>Python's truth value of a JSON value (\<open>not raw\<close>, \<open>bool(...)\<close>).\<close>

fun truthy :: "json \<Rightarrow> bool" where
  "truthy JNull = False"
| "truthy (JBool b) = b"
| "truthy (JInt i) = (i \<noteq> 0)"
| "truthy (JFloat r) = (r \<noteq> 0)"
| "truthy (JStr s) = (s \<noteq> [])"
| "truthy (JArr xs) = (xs \<noteq> [])"
| "truthy (JObj kvs) = (kvs \<noteq> [])"

text \<open>\<open>sub in s\<close> for two strings.\<close>

fun contains_str :: "string \<Rightarrow> string \<Rightarrow> bool" where
  "contains_str sub [] = (sub = [])"
| "contains_str sub (c # cs) = (prefix sub (c # cs) \<or> contains_str sub cs)"

text \<open>
  \<open>key in data\<close>, \<open>data[key]\<close>, \<open>data.get(key)\<close> and \<open>data[key] = value\<close> for a string key
  and whatever JSON value \<open>data\<close> is.
\<close>

fun py_contains :: "string \<Rightarrow> json \<Rightarrow> error + bool" where
  "py_contains k (JObj kvs) = Inr (map_of kvs k \<noteq> None)"
| "py_contains k (JArr xs) = Inr (JStr k \<in> set xs)"
| "py_contains k (JStr s) = Inr (contains_str k s)"
| "py_contains k _ = Inl TypeError"

fun py_getitem :: "json \<Rightarrow> string \<Rightarrow> error + json" where
  "py_getitem (JObj kvs) k = (case map_of kvs k of None \<Rightarrow> Inl KeyError | Some v \<Rightarrow> Inr v)"
| "py_getitem _ k = Inl TypeError"

fun py_get :: "json \<Rightarrow> string \<Rightarrow> error + json option" where
  "py_get (JObj kvs) k = Inr (map_of kvs k)"
| "py_get _ k = Inl AttributeError"

fun py_setitem :: "json \<Rightarrow> string \<Rightarrow> json \<Rightarrow> error + json" where
  "py_setitem (JObj kvs) k v = Inr (JObj (AList.update k v kvs))"
| "py_setitem _ k v = Inl TypeError"

fun isinstance_dict :: "json \<Rightarrow> bool" where
  "isinstance_dict (JObj kvs) = True"
| "isinstance_dict _ = False"

definition empty_document :: json where
  "empty_document = JObj [(''accounts'', JObj [])]"

text \<open>\<open>JsonStorage\<close>, on the state of its file.\<close>

definition load :: "file_state \<Rightarrow> error + json" where
  "load f =
     (case f of
        NoFile \<Rightarrow> Inr empty_document
      | NotUtf8 \<Rightarrow> Inl UnicodeDecodeError
      | NotJson \<Rightarrow> Inl JSONDecodeError
      | Json data \<Rightarrow>
          (case py_contains ''accounts'' data of
             Inl e \<Rightarrow> Inl e
           | Inr False \<Rightarrow> Inr empty_document
           | Inr True \<Rightarrow>
               (case py_getitem data ''accounts'' of
                  Inl e \<Rightarrow> Inl e
                | Inr accounts \<Rightarrow>
                    if \<not> isinstance_dict accounts then Inr empty_document else Inr data)))"

text \<open>
  \<open>save\<close> writes the document to a temporary file and renames it over the storage file:
  afterwards the file holds the document.
\<close>

definition save :: "json \<Rightarrow> file_state \<Rightarrow> file_state" where
  "save data f = Json data"

definition has_any_accounts :: "file_state \<Rightarrow> error + bool" where
  "has_any_accounts f =
     (case load f of
        Inl e \<Rightarrow> Inl e
      | Inr data \<Rightarrow>
          (case py_getitem data ''accounts'' of
             Inl e \<Rightarrow> Inl e
           | Inr accounts \<Rightarrow> Inr (truthy accounts)))"

definition get_account :: "string \<Rightarrow> file_state \<Rightarrow> error + account option" where
  "get_account number f =
     (case load f of
        Inl e \<Rightarrow> Inl e
      | Inr data \<Rightarrow>
          (case py_getitem data ''accounts'' of
             Inl e \<Rightarrow> Inl e
           | Inr accounts \<Rightarrow>
               (case py_get accounts number of
                  Inl e \<Rightarrow> Inl e
                | Inr None \<Rightarrow> Inr None
                | Inr (Some raw) \<Rightarrow>
                    if \<not> truthy raw then Inr None
                    else (case Account raw of Inl e \<Rightarrow> Inl e | Inr a \<Rightarrow> Inr (Some a)))))"

text \<open>
  \<open>upsert_account\<close>: the assignment changes the dict that \<open>data["accounts"]\<close> refers to,
  so the document that is saved holds the changed dict under \<open>"accounts"\<close>.
\<close>

definition upsert_account :: "account \<Rightarrow> file_state \<Rightarrow> error + file_state" where
  "upsert_account a f =
     (case load f of
        Inl e \<Rightarrow> Inl e
      | Inr data \<Rightarrow>
          (case py_getitem data ''accounts'' of
             Inl e \<Rightarrow> Inl e
           | Inr accounts \<Rightarrow>
               (case py_setitem accounts (account_number a) (asdict a) of
                  Inl e \<Rightarrow> Inl e
                | Inr accounts' \<Rightarrow>
                    (case py_setitem data ''accounts'' accounts' of
                       Inl e \<Rightarrow> Inl e
                     | Inr data' \<Rightarrow> Inr (save data' f)))))"

definition account_exists :: "string \<Rightarrow> file_state \<Rightarrow> error + bool" where
  "account_exists number f =
     (case load f of
        Inl e \<Rightarrow> Inl e
      | Inr data \<Rightarrow>
          (case py_getitem data ''accounts'' of
             Inl e \<Rightarrow> Inl e
           | Inr accounts \<Rightarrow> py_contains number accounts))"

text \<open>
  \<open>secrets.randbelow(n)\<close> for positive \<open>n\<close> returns a number below \<open>n\<close>: the next value of
  the random source, reduced modulo \<open>n\<close>.
\<close>

definition randbelow :: "nat \<Rightarrow> world \<Rightarrow> nat \<times> world" where
  "randbelow n w = (entropy w (entropy_pos w) mod n, w\<lparr> entropy_pos := entropy_pos w + 1 \<rparr>)"

text \<open>
  \<open>generate_unique_account_number\<close>: the loop goes on for as long as the candidates
  exist in the storage; \<open>None\<close> stands for a loop that never ends.
\<close>

partial_function (option) generate_unique_account_number ::
    "nat \<Rightarrow> world \<Rightarrow> ((error + string) \<times> world) option" where
  "generate_unique_account_number digits w =
     (case account_exists (zfill digits (str_nat (fst (randbelow (10 ^ digits) w))))
             (disk (snd (randbelow (10 ^ digits) w))) of
        Inl e \<Rightarrow> Some (Inl e, snd (randbelow (10 ^ digits) w))
      | Inr found \<Rightarrow>
          if found then generate_unique_account_number digits (snd (randbelow (10 ^ digits) w))
          else Some (Inr (zfill digits (str_nat (fst (randbelow (10 ^ digits) w)))),
                     snd (randbelow (10 ^ digits) w)))"

subsection \<open>Account numbers: digits and freshness\<close>

lemma digit_char_ascii: "digit_char d \<in> set ''0123456789''"
proof -
  have "d mod 10 < length ''0123456789''" by simp
  then show ?thesis unfolding digit_char_def by (rule nth_mem)
qed

lemma str_nat_digits: "set (str_nat n) \<subseteq> set ''0123456789''"
proof (induction n rule: str_nat.induct)
  case (1 n)
  show ?case
  proof (cases "n < 10")
    case True
    then show ?thesis using digit_char_ascii [of n] by (subst str_nat.simps) simp
  next
    case False
    then show ?thesis using 1 digit_char_ascii [of "n mod 10"] by (subst str_nat.simps) simp
  qed
qed

lemma str_nat_nonempty: "str_nat n \<noteq> []"
  by (subst str_nat.simps) simp

lemma length_str_nat: "n < 10 ^ k \<Longrightarrow> 0 < k \<Longrightarrow> length (str_nat n) \<le> k"
proof (induction n arbitrary: k rule: str_nat.induct)
  case (1 n)
  show ?case
  proof (cases "n < 10")
    case True
    with 1 show ?thesis by (subst str_nat.simps) simp
  next
    case False
    obtain j where k: "k = Suc j" using "1.prems"(2) by (cases k) auto
    have "j \<noteq> 0" using False "1.prems"(1) k by (cases j) auto
    moreover have "n div 10 < 10 ^ j" using "1.prems"(1) k by (simp add: less_mult_imp_div_less)
    ultimately have "length (str_nat (n div 10)) \<le> j" using "1.IH" [OF False] by simp
    with False k show ?thesis by (subst str_nat.simps) simp
  qed
qed

lemma zfill_str_nat: "zfill w (str_nat n) = replicate (w - length (str_nat n)) CHR ''0'' @ str_nat n"
proof -
  obtain c cs where s: "str_nat n = c # cs" using str_nat_nonempty [of n] by (cases "str_nat n") auto
  have "c \<in> set ''0123456789''" using str_nat_digits [of n] s by auto
  then have "c \<noteq> CHR ''+''" "c \<noteq> CHR ''-''" by auto
  then show ?thesis by (simp add: zfill_def s)
qed

lemma zfill_str_nat_length: "n < 10 ^ k \<Longrightarrow> 0 < k \<Longrightarrow> length (zfill k (str_nat n)) = k"
  using length_str_nat [of n k] by (simp add: zfill_str_nat)

lemma zfill_str_nat_digits: "set (zfill k (str_nat n)) \<subseteq> set ''0123456789''"
  using str_nat_digits [of n] by (auto simp: zfill_str_nat)

lemma randbelow_fields [simp]:
  "disk (snd (randbelow n w)) = disk w"
  "stdin_lines (snd (randbelow n w)) = stdin_lines w"
  "stdout_text (snd (randbelow n w)) = stdout_text w"
  "eof_seen (snd (randbelow n w)) = eof_seen w"
  "clock_iso (snd (randbelow n w)) = clock_iso w"
  "clock_pos (snd (randbelow n w)) = clock_pos w"
  "entropy (snd (randbelow n w)) = entropy w"
  "entropy_pos (snd (randbelow n w)) = Suc (entropy_pos w)"
  by (simp_all add: randbelow_def)

lemma randbelow_less: "0 < n \<Longrightarrow> fst (randbelow n w) < n"
  by (simp add: randbelow_def)

definition gen_post :: "nat \<Rightarrow> world \<Rightarrow> (error + string) \<times> world \<Rightarrow> bool" where
  "gen_post digits w y \<longleftrightarrow>
     disk (snd y) = disk w \<and> stdin_lines (snd y) = stdin_lines w \<and>
     stdout_text (snd y) = stdout_text w \<and> eof_seen (snd y) = eof_seen w \<and>
     clock_iso (snd y) = clock_iso w \<and> clock_pos (snd y) = clock_pos w \<and>
     entropy (snd y) = entropy w \<and>
     (\<forall>acc. fst y = Inr acc \<longrightarrow>
        account_exists acc (disk w) = Inr False \<and>
        (\<exists>n < 10 ^ digits. acc = zfill digits (str_nat n)))"

lemma generate_step:
  assumes IH: "\<And>d v r. gen d v = Some r \<Longrightarrow> gen_post d v r"
    and body: "(case account_exists (zfill digits (str_nat (fst (randbelow (10 ^ digits) w))))
             (disk (snd (randbelow (10 ^ digits) w))) of
        Inl e \<Rightarrow> Some (Inl e, snd (randbelow (10 ^ digits) w))
      | Inr found \<Rightarrow>
          if found then gen digits (snd (randbelow (10 ^ digits) w))
          else Some (Inr (zfill digits (str_nat (fst (randbelow (10 ^ digits) w)))),
                     snd (randbelow (10 ^ digits) w))) = Some y"
  shows "gen_post digits w y"
proof -
  define w1 where "w1 = snd (randbelow (10 ^ digits) w)"
  define n where "n = fst (randbelow (10 ^ digits) w)"
  have lt: "n < 10 ^ digits"
    unfolding n_def by (rule randbelow_less) simp
  have w1: "disk w1 = disk w" "stdin_lines w1 = stdin_lines w" "stdout_text w1 = stdout_text w"
    "eof_seen w1 = eof_seen w" "clock_iso w1 = clock_iso w" "clock_pos w1 = clock_pos w"
    "entropy w1 = entropy w"
    by (simp_all add: w1_def)
  have body': "(case account_exists (zfill digits (str_nat n)) (disk w1) of
                 Inl e \<Rightarrow> Some (Inl e, w1)
               | Inr found \<Rightarrow> if found then gen digits w1
                              else Some (Inr (zfill digits (str_nat n)), w1)) = Some y"
    using body by (simp only: w1_def n_def)
  show ?thesis
  proof (cases "account_exists (zfill digits (str_nat n)) (disk w1)")
    case (Inl e)
    with body' have "y = (Inl e, w1)" by simp
    then show ?thesis by (simp add: w1 gen_post_def)
  next
    case (Inr found)
    show ?thesis
    proof (cases found)
      case True
      with Inr body' have "gen digits w1 = Some y" by simp
      from IH [OF this] show ?thesis by (simp add: w1 gen_post_def)
    next
      case False
      with Inr body' have y: "y = (Inr (zfill digits (str_nat n)), w1)" by simp
      have "account_exists (zfill digits (str_nat n)) (disk w) = Inr False"
        using Inr False by (simp add: w1)
      then show ?thesis using lt unfolding y gen_post_def by (auto simp: w1)
    qed
  qed
qed

lemma generate_partial:
  assumes "generate_unique_account_number digits w = Some y"
  shows "gen_post digits w y"
  by (rule generate_unique_account_number.raw_induct [where P = gen_post, OF generate_step assms])


section \<open>Lesson 1: PIN credentials\<close>

type_synonym byte = "8 word"

text \<open>
  \<open>hashlib.sha256(data).digest()\<close>: SHA-256 as in FIPS 180-4, on a list of bytes.
\<close>

definition K256 :: "32 word list" where
  "K256 =
     [0x428a2f98, 0x71374491, 0xb5c0fbcf, 0xe9b5dba5, 0x3956c25b, 0x59f111f1,
      0x923f82a4, 0xab1c5ed5, 0xd807aa98, 0x12835b01, 0x243185be, 0x550c7dc3,
      0x72be5d74, 0x80deb1fe, 0x9bdc06a7, 0xc19bf174, 0xe49b69c1, 0xefbe4786,
      0x0fc19dc6, 0x240ca1cc, 0x2de92c6f, 0x4a7484aa, 0x5cb0a9dc, 0x76f988da,
      0x983e5152, 0xa831c66d, 0xb00327c8, 0xbf597fc7, 0xc6e00bf3, 0xd5a79147,
      0x06ca6351, 0x14292967, 0x27b70a85, 0x2e1b2138, 0x4d2c6dfc, 0x53380d13,
      0x650a7354, 0x766a0abb, 0x81c2c92e, 0x92722c85, 0xa2bfe8a1, 0xa81a664b,
      0xc24b8b70, 0xc76c51a3, 0xd192e819, 0xd6990624, 0xf40e3585, 0x106aa070,
      0x19a4c116, 0x1e376c08, 0x2748774c, 0x34b0bcb5, 0x391c0cb3, 0x4ed8aa4a,
      0x5b9cca4f, 0x682e6ff3, 0x748f82ee, 0x78a5636f, 0x84c87814, 0x8cc70208,
      0x90befffa, 0xa4506ceb, 0xbef9a3f7, 0xc67178f2]"

definition H256 :: "32 word list" where
  "H256 = [0x6a09e667, 0xbb67ae85, 0x3c6ef372, 0xa54ff53a,
           0x510e527f, 0x9b05688c, 0x1f83d9ab, 0x5be0cd19]"

definition Ch :: "32 word \<Rightarrow> 32 word \<Rightarrow> 32 word \<Rightarrow> 32 word" where
  "Ch x y z = (x AND y) XOR (NOT x AND z)"

definition Maj :: "32 word \<Rightarrow> 32 word \<Rightarrow> 32 word \<Rightarrow> 32 word" where
  "Maj x y z = (x AND y) XOR (x AND z) XOR (y AND z)"

definition Sigma0 :: "32 word \<Rightarrow> 32 word" where
  "Sigma0 x = word_rotr 2 x XOR word_rotr 13 x XOR word_rotr 22 x"

definition Sigma1 :: "32 word \<Rightarrow> 32 word" where
  "Sigma1 x = word_rotr 6 x XOR word_rotr 11 x XOR word_rotr 25 x"

definition sigma0 :: "32 word \<Rightarrow> 32 word" where
  "sigma0 x = word_rotr 7 x XOR word_rotr 18 x XOR drop_bit 3 x"

definition sigma1 :: "32 word \<Rightarrow> 32 word" where
  "sigma1 x = word_rotr 17 x XOR word_rotr 19 x XOR drop_bit 10 x"

text \<open>Padding: a one bit, zeros, and the length of the message in bits as 64 bits.\<close>

definition word64_bytes :: "64 word \<Rightarrow> byte list" where
  "word64_bytes l = map (\<lambda>i. ucast (drop_bit (8 * (7 - i)) l)) [0..<8]"

definition word32_bytes :: "32 word \<Rightarrow> byte list" where
  "word32_bytes h = [ucast (drop_bit 24 h), ucast (drop_bit 16 h), ucast (drop_bit 8 h), ucast h]"

definition sha_pad :: "byte list \<Rightarrow> byte list" where
  "sha_pad msg =
     msg @ [0x80] @ replicate ((119 - length msg mod 64) mod 64) 0 @
     word64_bytes (of_nat (8 * length msg))"

fun be_words :: "byte list \<Rightarrow> 32 word list" where
  "be_words (a # b # c # d # rest) =
     (push_bit 24 (ucast a) OR push_bit 16 (ucast b) OR push_bit 8 (ucast c) OR ucast d) #
     be_words rest"
| "be_words _ = []"

fun schedule :: "nat \<Rightarrow> 32 word list \<Rightarrow> 32 word list" where
  "schedule 0 ws = ws"
| "schedule (Suc n) ws =
     schedule n (ws @ [sigma1 (ws ! (length ws - 2)) + ws ! (length ws - 7) +
                       sigma0 (ws ! (length ws - 15)) + ws ! (length ws - 16)])"

fun sha_round :: "32 word \<times> 32 word \<Rightarrow> 32 word list \<Rightarrow> 32 word list" where
  "sha_round (k, w) [a, b, c, d, e, f, g, h] =
     (let t1 = h + Sigma1 e + Ch e f g + k + w;
          t2 = Sigma0 a + Maj a b c
      in [t1 + t2, a, b, c, d + t1, e, f, g])"
| "sha_round (k, w) st = st"

definition compress :: "32 word list \<Rightarrow> 32 word list \<Rightarrow> 32 word list" where
  "compress block hs =
     map2 (+) hs (fold sha_round (zip K256 (schedule 48 block)) hs)"

fun sha_blocks :: "nat \<Rightarrow> 32 word list \<Rightarrow> 32 word list \<Rightarrow> 32 word list" where
  "sha_blocks 0 ws hs = hs"
| "sha_blocks (Suc n) ws hs = sha_blocks n (drop 16 ws) (compress (take 16 ws) hs)"

definition sha256 :: "byte list \<Rightarrow> byte list" where
  "sha256 msg =
     (let ws = be_words (sha_pad msg)
      in concat (map word32_bytes (sha_blocks (length ws div 16) ws H256)))"

text \<open>\<open>bytes.hex()\<close> and \<open>bytes.fromhex(s)\<close>, which skips ASCII white space between bytes.\<close>

definition hex_digit :: "nat \<Rightarrow> char" where
  "hex_digit n = ''0123456789abcdef'' ! (n mod 16)"

definition hex :: "byte list \<Rightarrow> string" where
  "hex bs = concat (map (\<lambda>b. [hex_digit (unat b div 16), hex_digit (unat b mod 16)]) bs)"

definition hex_val :: "char \<Rightarrow> nat option" where
  "hex_val c =
     (let n = (of_char c :: nat)
      in if 48 \<le> n \<and> n \<le> 57 then Some (n - 48)
         else if 97 \<le> n \<and> n \<le> 102 then Some (n - 87)
         else if 65 \<le> n \<and> n \<le> 70 then Some (n - 55)
         else None)"

definition is_ascii_space :: "char \<Rightarrow> bool" where
  "is_ascii_space c \<longleftrightarrow> (of_char c :: nat) \<in> {9, 10, 11, 12, 13, 32}"

fun fromhex :: "string \<Rightarrow> error + byte list" where
  "fromhex [] = Inr []"
| "fromhex [c] = (if is_ascii_space c then Inr [] else Inl ValueError)"
| "fromhex (c # d # ds) =
     (if is_ascii_space c then fromhex (d # ds)
      else (case (hex_val c, hex_val d) of
              (Some h, Some l) \<Rightarrow>
                (case fromhex ds of
                   Inl e \<Rightarrow> Inl e
                 | Inr bs \<Rightarrow> Inr (of_nat (16 * h + l) # bs))
            | _ \<Rightarrow> Inl ValueError))"

text \<open>\<open>str.encode("utf-8")\<close> for code points below 256.\<close>

definition encode_utf8 :: "string \<Rightarrow> byte list" where
  "encode_utf8 s =
     concat (map (\<lambda>c. let n = (of_char c :: nat)
                       in if n < 128 then [of_nat n]
                          else [of_nat (192 + n div 64), of_nat (128 + n mod 64)]) s)"

text \<open>
  \<open>secrets.compare_digest\<close> on two byte strings: it folds the differences of the bytes
  together, so that its running time does not depend on where they differ.
\<close>

definition compare_digest :: "byte list \<Rightarrow> byte list \<Rightarrow> bool" where
  "compare_digest a b \<longleftrightarrow>
     length a = length b \<and> fold (\<lambda>(x, y) acc. acc OR (x XOR y)) (zip a b) 0 = 0"

text \<open>\<open>secrets.token_bytes(n)\<close>: the next \<open>n\<close> values of the random source, as bytes.\<close>

definition token_bytes :: "nat \<Rightarrow> world \<Rightarrow> byte list \<times> world" where
  "token_bytes n w =
     (map (\<lambda>i. of_nat (entropy w (entropy_pos w + i))) [0..<n],
      w\<lparr> entropy_pos := entropy_pos w + n \<rparr>)"

definition hash_pin :: "string \<Rightarrow> byte list \<Rightarrow> byte list" where
  "hash_pin pin salt = sha256 (salt @ encode_utf8 pin)"

definition make_pin_record :: "string \<Rightarrow> world \<Rightarrow> (string \<times> string) \<times> world" where
  "make_pin_record pin w =
     (let (salt, w1) = token_bytes 16 w;
          h = hash_pin pin salt
      in ((hex salt, hex h), w1))"

definition verify_pin :: "string \<Rightarrow> string \<Rightarrow> string \<Rightarrow> error + bool" where
  "verify_pin pin salt_hex hash_hex =
     (case fromhex salt_hex of
        Inl e \<Rightarrow> Inl e
      | Inr salt \<Rightarrow>
          (case fromhex hash_hex of
             Inl e \<Rightarrow> Inl e
           | Inr expected \<Rightarrow> Inr (compare_digest (hash_pin pin salt) expected)))"

section \<open>Lesson 1: amounts of money\<close>

text \<open>
  A value of Python's \<open>decimal.Decimal\<close>: a finite number with its sign (true for minus),
  coefficient and exponent, an infinity, or a NaN.
\<close>

datatype decimal = Finite bool nat int | Infinity bool | NaN

definition is_dec_digit :: "char \<Rightarrow> bool" where
  "is_dec_digit c \<longleftrightarrow> 48 \<le> (of_char c :: nat) \<and> (of_char c :: nat) \<le> 57"

definition digits_value :: "string \<Rightarrow> nat" where
  "digits_value ds = foldl (\<lambda>n c. 10 * n + (of_char c - 48)) 0 ds"

definition lower :: "char \<Rightarrow> char" where
  "lower c = (if 65 \<le> (of_char c :: nat) \<and> (of_char c :: nat) \<le> 90
              then char_of ((of_char c :: nat) + 32) else c)"

definition split_sign :: "string \<Rightarrow> bool \<times> string" where
  "split_sign s =
     (case s of
        c # cs \<Rightarrow> if c = CHR ''-'' then (True, cs) else if c = CHR ''+'' then (False, cs)
                  else (False, s)
      | [] \<Rightarrow> (False, []))"

definition parse_exponent :: "string \<Rightarrow> int option" where
  "parse_exponent s =
     (case s of
        [] \<Rightarrow> Some 0
      | c # cs \<Rightarrow>
          if lower c = CHR ''e''
          then (let (neg, ds) = split_sign cs
                in if ds \<noteq> [] \<and> list_all is_dec_digit ds
                   then Some (if neg then - int (digits_value ds) else int (digits_value ds))
                   else None)
          else None)"

text \<open>
  \<open>Decimal(value)\<close> for a string, \<open>None\<close> when the constructor raises InvalidOperation
  (which \<open>ask_money_amount\<close> catches).  The string is stripped, underscores are removed,
  and the rest must be a numeric string: an optional sign followed by digits with an
  optional fraction and an optional exponent, or by \<open>Inf\<close>, \<open>Infinity\<close>, \<open>NaN\<close> or \<open>sNaN\<close>
  (the last two with optional digits), in any case of the letters.  Exponents are not
  bounded.
\<close>

definition Decimal :: "string \<Rightarrow> decimal option" where
  "Decimal val =
     (let s = filter (\<lambda>c. c \<noteq> CHR ''_'') (strip val);
          (neg, body) = split_sign s;
          low = map lower body
      in if low = ''inf'' \<or> low = ''infinity'' then Some (Infinity neg)
         else if (take 3 low = ''nan'' \<and> list_all is_dec_digit (drop 3 low)) \<or>
                 (take 4 low = ''snan'' \<and> list_all is_dec_digit (drop 4 low)) then Some NaN
         else
           (let intpart = takeWhile is_dec_digit body;
                r1 = dropWhile is_dec_digit body;
                (frac, r2) =
                  (case r1 of
                     c # cs \<Rightarrow> if c = CHR ''.''
                               then (takeWhile is_dec_digit cs, dropWhile is_dec_digit cs)
                               else ([], r1)
                   | [] \<Rightarrow> ([], []))
            in if intpart = [] \<and> frac = [] then None
               else (case parse_exponent r2 of
                       None \<Rightarrow> None
                     | Some ex \<Rightarrow>
                         Some (Finite neg (digits_value (intpart @ frac))
                                 (ex - int (length frac))))))"

definition is_nan :: "decimal \<Rightarrow> bool" where
  "is_nan d = (case d of NaN \<Rightarrow> True | _ \<Rightarrow> False)"

definition is_infinite :: "decimal \<Rightarrow> bool" where
  "is_infinite d = (case d of Infinity s \<Rightarrow> True | _ \<Rightarrow> False)"

text \<open>\<open>d < 0\<close> for a Decimal that is not a NaN.\<close>

definition below_zero :: "decimal \<Rightarrow> bool" where
  "below_zero d = (case d of Finite s c e \<Rightarrow> s \<and> c \<noteq> 0 | Infinity s \<Rightarrow> s | NaN \<Rightarrow> False)"

text \<open>
  The default context of the \<open>decimal\<close> module: 28 digits of precision, exponents
  between -999999 and 999999, rounding half to even; of the signals that can occur here
  InvalidOperation and Overflow are trapped, that is, raised as exceptions.
\<close>

definition prec :: int where
  "prec = 28"

definition Emax :: int where
  "Emax = 999999"

definition Emin :: int where
  "Emin = - 999999"

definition Etiny :: int where
  "Etiny = Emin - prec + 1"

definition Etop :: int where
  "Etop = Emax - prec + 1"

definition ndigits :: "nat \<Rightarrow> nat" where
  "ndigits c = length (str_nat c)"

text \<open>\<open>c / m\<close> rounded to the nearest integer, a tie going to the even one.\<close>

definition round_half_even :: "nat \<Rightarrow> nat \<Rightarrow> nat" where
  "round_half_even c m =
     (let q = c div m; r = c mod m
      in if 2 * r > m \<or> (2 * r = m \<and> odd q) then q + 1 else q)"

text \<open>
  What the context does to the exact result of an operation (\<open>Decimal._fix\<close>): a result
  with more digits than the precision is rounded, one that is too large raises Overflow,
  and one that is too small is rounded to the smallest exponent.
\<close>

definition fix_context :: "bool \<Rightarrow> nat \<Rightarrow> int \<Rightarrow> error + decimal" where
  "fix_context s c e =
     (if c = 0 then Inr (Finite s 0 (min (max e Etiny) Emax))
      else
        (let exp_min = int (ndigits c) + e - prec
         in if exp_min > Etop then Inl Overflow
            else
              (let exp_min = max exp_min Etiny
               in if e < exp_min
                  then (let coeff = round_half_even c (10 ^ nat (exp_min - e))
                        in if coeff \<noteq> 0 \<and> int (ndigits coeff) > prec
                           then (if exp_min + 1 > Etop then Inl Overflow
                                 else Inr (Finite s (coeff div 10) (exp_min + 1)))
                           else Inr (Finite s coeff exp_min))
                  else Inr (Finite s c e))))"

text \<open>\<open>d * 100\<close>.\<close>

definition times_100 :: "decimal \<Rightarrow> error + decimal" where
  "times_100 d =
     (case d of
        Finite s c e \<Rightarrow> fix_context s (c * 100) e
      | Infinity s \<Rightarrow> Inr (Infinity s)
      | NaN \<Rightarrow> Inr NaN)"

text \<open>
  \<open>d.quantize(Decimal("1"))\<close>: the value rounded to exponent 0; InvalidOperation when
  the result would have more digits than the precision.
\<close>

definition quantize_1 :: "decimal \<Rightarrow> error + decimal" where
  "quantize_1 d =
     (case d of
        Finite s c e \<Rightarrow>
          if c = 0 then Inr (Finite s 0 0)
          else if int (ndigits c) + e - 1 > Emax then Inl InvalidOperation
          else if int (ndigits c) + e > prec then Inl InvalidOperation
          else
            (let coeff = (if e \<ge> 0 then c * 10 ^ nat e else round_half_even c (10 ^ nat (- e)))
             in if coeff \<noteq> 0 \<and> int (ndigits coeff) > prec then Inl InvalidOperation
                else Inr (Finite s coeff 0))
      | Infinity s \<Rightarrow> Inl InvalidOperation
      | NaN \<Rightarrow> Inr NaN)"

text \<open>\<open>int(d)\<close>, which truncates; it raises ValueError for a NaN and OverflowError
  (here \<open>Overflow\<close>) for an infinity.\<close>

definition int_of_decimal :: "decimal \<Rightarrow> error + int" where
  "int_of_decimal d =
     (case d of
        Finite s c e \<Rightarrow>
          (let m = (if e \<ge> 0 then int c * 10 ^ nat e else int c div 10 ^ nat (- e))
           in Inr (if s then - m else m))
      | Infinity s \<Rightarrow> Inl Overflow
      | NaN \<Rightarrow> Inl ValueError)"

text \<open>\<open>int((d * 100).quantize(Decimal("1")))\<close>.\<close>

definition to_cents :: "decimal \<Rightarrow> error + int" where
  "to_cents d =
     (case times_100 d of
        Inl e \<Rightarrow> Inl e
      | Inr m \<Rightarrow> (case quantize_1 m of Inl e \<Rightarrow> Inl e | Inr q \<Rightarrow> int_of_decimal q))"

text \<open>\<open>raw.replace(",", ".")\<close>.\<close>

definition replace_commas :: "string \<Rightarrow> string" where
  "replace_commas s = map (\<lambda>c. if c = CHR '','' then CHR ''.'' else c) s"

function ask_money_amount :: "string \<Rightarrow> world \<Rightarrow> (error + int) \<times> world" where
  "ask_money_amount prompt w =
     (case stdin prompt w of
        (Inl e, w1) \<Rightarrow> (Inl e, w1)
      | (Inr line, w1) \<Rightarrow>
          (let raw = replace_commas (strip line)
           in case Decimal raw of
                None \<Rightarrow>
                  ask_money_amount prompt
                    (error ''Vvedite korrektnoe chislo (naprimer: 100 ili 100.50).'' w1)
              | Some d \<Rightarrow>
                  if is_nan d \<or> is_infinite d
                  then ask_money_amount prompt (error ''Nekorrektnoe znachenie summy.'' w1)
                  else if below_zero d
                  then ask_money_amount prompt
                         (error ''Summa ne mozhet byt' otricatel'noj.'' w1)
                  else (case to_cents d of
                          Inl e \<Rightarrow> (Inl e, w1)
                        | Inr cents \<Rightarrow> (Inr cents, w1))))"
  by pat_completeness auto
termination
  by (relation "measure (\<lambda>(p, w). length (stdin_lines w))") (auto dest: stdin_consumes [OF sym])

declare ask_money_amount.simps [simp del]

section \<open>Lesson 1: the ATM controller\<close>

text \<open>
  How a call left the world, as far as the input goes: it has not put lines back, and it
  has seen the end of the input only if it raised EOFError (or the end had been seen
  before).
\<close>

definition flow_ok :: "error + 'a \<Rightarrow> world \<Rightarrow> world \<Rightarrow> bool" where
  "flow_ok r w w' \<longleftrightarrow>
     length (stdin_lines w') \<le> length (stdin_lines w) \<and>
     (eof_seen w' \<longrightarrow> eof_seen w \<or> r = Inl EOFError)"

text \<open>The same for a call that touches nothing but the two streams.\<close>

definition io_ok :: "error + 'a \<Rightarrow> world \<Rightarrow> world \<Rightarrow> bool" where
  "io_ok r w w' \<longleftrightarrow>
     flow_ok r w w' \<and> disk w' = disk w \<and> entropy w' = entropy w \<and>
     entropy_pos w' = entropy_pos w \<and> clock_iso w' = clock_iso w \<and> clock_pos w' = clock_pos w"

lemma show_balance_fields [simp]:
  "stdin_lines (show_balance b w) = stdin_lines w"
  "disk (show_balance b w) = disk w"
  "entropy (show_balance b w) = entropy w"
  "entropy_pos (show_balance b w) = entropy_pos w"
  "clock_iso (show_balance b w) = clock_iso w"
  "clock_pos (show_balance b w) = clock_pos w"
  "eof_seen (show_balance b w) = eof_seen w"
  by (simp_all add: show_balance_def)

lemma show_account_created_fields [simp]:
  "stdin_lines (show_account_created n w) = stdin_lines w"
  "disk (show_account_created n w) = disk w"
  "entropy (show_account_created n w) = entropy w"
  "entropy_pos (show_account_created n w) = entropy_pos w"
  "clock_iso (show_account_created n w) = clock_iso w"
  "clock_pos (show_account_created n w) = clock_pos w"
  "eof_seen (show_account_created n w) = eof_seen w"
  by (simp_all add: show_account_created_def)

lemma show_title_fields [simp]:
  "stdin_lines (show_title w) = stdin_lines w"
  "disk (show_title w) = disk w"
  "entropy (show_title w) = entropy w"
  "entropy_pos (show_title w) = entropy_pos w"
  "clock_iso (show_title w) = clock_iso w"
  "clock_pos (show_title w) = clock_pos w"
  "eof_seen (show_title w) = eof_seen w"
  by (simp_all add: show_title_def)

lemma pause_fields [simp]:
  "length (stdin_lines (pause m w)) \<le> length (stdin_lines w)"
  "disk (pause m w) = disk w"
  "entropy (pause m w) = entropy w"
  "entropy_pos (pause m w) = entropy_pos w"
  "clock_iso (pause m w) = clock_iso w"
  "clock_pos (pause m w) = clock_pos w"
  "eof_seen (pause m w) = eof_seen w"
  by (simp_all add: pause_def readline_def split: list.splits)

lemma stdin_io_ok: "stdin p w = (r, w1) \<Longrightarrow> io_ok r w w1"
  by (auto simp: stdin_def readline_def stdin_result_def io_ok_def flow_ok_def Let_def
      split: list.splits if_splits)

lemma io_ok_step:
  assumes "io_ok (Inr x) w w1" and "io_ok r w1 w2"
  shows "io_ok r w w2"
  using assms by (auto simp: io_ok_def flow_ok_def)

lemma io_ok_Inr: "io_ok (Inr x) w w1 \<Longrightarrow> io_ok (Inr y) w w1"
  by (simp add: io_ok_def flow_ok_def)

lemma flow_ok_step:
  assumes "flow_ok (Inr x) w w1" and "flow_ok r w1 w2"
  shows "flow_ok r w w2"
  using assms by (auto simp: flow_ok_def)

lemma io_ok_flow_ok: "io_ok r w w' \<Longrightarrow> flow_ok r w w'"
  by (simp add: io_ok_def)

lemma io_ok_Inr_any: "io_ok (Inr x) w w1 \<Longrightarrow> io_ok r w w1"
  by (simp add: io_ok_def flow_ok_def)

lemma io_ok_Inl: "io_ok (Inl e :: error + 'a) w w1 \<Longrightarrow> io_ok (Inl e :: error + 'b) w w1"
  by (simp add: io_ok_def flow_ok_def)

lemma ask_text_io_ok: "ask_text p m w = (r, w') \<Longrightarrow> io_ok r w w'"
proof (induction "length (stdin_lines w)" arbitrary: w rule: less_induct)
  case less
  obtain r0 w0 where st: "stdin p w = (r0, w0)" by (cases "stdin p w")
  note ok0 = stdin_io_ok [OF st]
  show ?case
  proof (cases r0)
    case (Inl e)
    with st less.prems ok0 show ?thesis by (auto simp: ask_text.simps [of p m w])
  next
    case (Inr line)
    have lt: "length (stdin_lines w0) < length (stdin_lines w)"
      using st unfolding Inr by (rule stdin_consumes)
    have again: "io_ok r w w'" if "ask_text p m (error msg w0) = (r, w')" for msg
    proof -
      have "io_ok r (error msg w0) w'"
        using less.hyps [of "error msg w0", OF _ that] lt by simp
      then show ?thesis using ok0 unfolding Inr by (auto simp: io_ok_def flow_ok_def)
    qed
    from less.prems ok0 show ?thesis
      unfolding Inr
      by (subst (asm) ask_text.simps)
         (auto simp: st Inr Let_def again split: if_splits intro: io_ok_Inr_any)
  qed
qed

lemma ask_digits_io_ok: "ask_digits p mn mx w = (r, w') \<Longrightarrow> io_ok r w w'"
proof (induction "length (stdin_lines w)" arbitrary: w rule: less_induct)
  case less
  obtain r0 w0 where st: "stdin p w = (r0, w0)" by (cases "stdin p w")
  note ok0 = stdin_io_ok [OF st]
  show ?case
  proof (cases r0)
    case (Inl e)
    with st less.prems ok0 show ?thesis by (auto simp: ask_digits.simps [of p mn mx w])
  next
    case (Inr line)
    have lt: "length (stdin_lines w0) < length (stdin_lines w)"
      using st unfolding Inr by (rule stdin_consumes)
    have again: "io_ok r w w'" if "ask_digits p mn mx (error msg w0) = (r, w')" for msg
    proof -
      have "io_ok r (error msg w0) w'"
        using less.hyps [of "error msg w0", OF _ that] lt by simp
      then show ?thesis using ok0 unfolding Inr by (auto simp: io_ok_def flow_ok_def)
    qed
    from less.prems ok0 show ?thesis
      unfolding Inr
      by (subst (asm) ask_digits.simps)
         (auto simp: st Inr Let_def again split: if_splits intro: io_ok_Inr_any)
  qed
qed

lemma ask_money_amount_io_ok: "ask_money_amount p w = (r, w') \<Longrightarrow> io_ok r w w'"
proof (induction "length (stdin_lines w)" arbitrary: w rule: less_induct)
  case less
  obtain r0 w0 where st: "stdin p w = (r0, w0)" by (cases "stdin p w")
  note ok0 = stdin_io_ok [OF st]
  show ?case
  proof (cases r0)
    case (Inl e)
    with st less.prems io_ok_Inl [of e w w0] ok0 show ?thesis
      by (auto simp: ask_money_amount.simps [of p w])
  next
    case (Inr line)
    have lt: "length (stdin_lines w0) < length (stdin_lines w)"
      using st unfolding Inr by (rule stdin_consumes)
    have again: "io_ok r w w'" if "ask_money_amount p (error msg w0) = (r, w')" for msg
    proof -
      have "io_ok r (error msg w0) w'"
        using less.hyps [of "error msg w0", OF _ that] lt by simp
      then show ?thesis using ok0 unfolding Inr by (auto simp: io_ok_def flow_ok_def)
    qed
    have raised: "io_ok x w w0" for x :: "error + int"
      using ok0 unfolding Inr by (rule io_ok_Inr_any)
    from less.prems ok0 show ?thesis
      unfolding Inr
      by (subst (asm) ask_money_amount.simps)
         (auto simp: st Inr Let_def again split: if_splits option.splits sum.splits
            intro: io_ok_Inr_any)
  qed
qed

section \<open>Lesson 1: properties of the storage\<close>

lemma load_shape:
  assumes "load f = Inr data"
  shows "\<exists>dk ak. data = JObj dk \<and> map_of dk ''accounts'' = Some (JObj ak)"
proof (cases f)
  case NoFile
  with assms show ?thesis by (auto simp: load_def empty_document_def)
next
  case NotUtf8
  with assms show ?thesis by (simp add: load_def)
next
  case NotJson
  with assms show ?thesis by (simp add: load_def)
next
  case (Json d)
  show ?thesis
  proof (cases "\<exists>dk ak. d = JObj dk \<and> map_of dk ''accounts'' = Some (JObj ak)")
    case True
    then obtain dk ak where "d = JObj dk" "map_of dk ''accounts'' = Some (JObj ak)" by blast
    with assms Json show ?thesis by (auto simp: load_def)
  next
    case False
    have "data = empty_document"
    proof (cases d)
      case (JObj dk)
      show ?thesis
      proof (cases "map_of dk ''accounts''")
        case None
        with assms Json JObj show ?thesis by (simp add: load_def)
      next
        case (Some v)
        with False JObj have "\<not> isinstance_dict v" by (cases v) auto
        with assms Json JObj Some show ?thesis by (simp add: load_def)
      qed
    qed (use assms Json in \<open>auto simp: load_def split: if_splits sum.splits bool.splits\<close>)
    then show ?thesis by (simp add: empty_document_def)
  qed
qed

lemma load_Json_shaped:
  "map_of dk ''accounts'' = Some (JObj ak) \<Longrightarrow> load (Json (JObj dk)) = Inr (JObj dk)"
  by (simp add: load_def)

lemma Account_asdict: "Account (asdict a) = Inr a"
  by (simp add: Account_def asdict_def field_names_def required_fields_def)

lemma upsert_account_result:
  assumes "load f = Inr (JObj dk)" and "map_of dk ''accounts'' = Some (JObj ak)"
  shows "upsert_account a f =
           Inr (Json (JObj (AList.update ''accounts''
                  (JObj (AList.update (account_number a) (asdict a) ak)) dk)))"
  using assms by (simp add: upsert_account_def save_def)

lemma get_account_after_upsert:
  assumes "upsert_account a f = Inr f'"
  shows "get_account (account_number a) f' = Inr (Some a)"
proof -
  obtain data where data: "load f = Inr data"
    using assms by (cases "load f") (auto simp: upsert_account_def)
  obtain dk ak where d: "data = JObj dk" "map_of dk ''accounts'' = Some (JObj ak)"
    using load_shape [OF data] by blast
  have f': "f' = Json (JObj (AList.update ''accounts''
                  (JObj (AList.update (account_number a) (asdict a) ak)) dk))"
    using upsert_account_result [of f dk ak a] data d assms by simp
  have tr: "truthy (asdict a)" by (simp add: asdict_def)
  show ?thesis
    unfolding f' get_account_def
    by (simp add: load_def update_conv' tr Account_asdict)
qed

lemma upsert_account_succeeds:
  assumes "load f = Inr data"
  shows "\<exists>f'. upsert_account a f = Inr f'"
proof -
  obtain dk ak where d: "data = JObj dk" "map_of dk ''accounts'' = Some (JObj ak)"
    using load_shape [OF assms] by blast
  show ?thesis using upsert_account_result [of f dk ak a] assms d by simp
qed

lemma not_exists_get_None:
  assumes "account_exists number f = Inr False"
  shows "get_account number f = Inr None"
proof -
  obtain data where data: "load f = Inr data"
    using assms by (cases "load f") (auto simp: account_exists_def)
  obtain dk ak where d: "data = JObj dk" "map_of dk ''accounts'' = Some (JObj ak)"
    using load_shape [OF data] by blast
  have "map_of ak number = None"
    using assms data d by (simp add: account_exists_def)
  then show ?thesis using data d by (simp add: get_account_def)
qed




text \<open>
  Claim C6.  For every account \<open>a\<close>: when \<open>upsert_account(a)\<close> returns, leaving the file in
  state \<open>f'\<close>, \<open>get_account(a.account_number)\<close> on that file returns a record equal to \<open>a\<close>
  in all fields; and \<open>upsert_account\<close> does return whenever \<open>load\<close> does.
\<close>

theorem upsert_get_roundtrip:
  "(upsert_account a f = Inr f' \<longrightarrow> get_account (account_number a) f' = Inr (Some a)) \<and>
   (load f = Inr data \<longrightarrow> (\<exists>g. upsert_account a f = Inr g))"
  using get_account_after_upsert [of a f f'] upsert_account_succeeds [of f data a] by blast

definition sample_account :: account where
  "sample_account = \<lparr> account_number = ''0000000001'', name = ''A'', surname = ''B'',
     id_number = ''ID'', pin_salt_hex = ''00'', pin_hash_hex = ''11'', balance_cents = 100,
     created_at = ''2025-01-01T00:00:00Z'' \<rparr>"

text \<open>
  Claim C6 at the account of the repository's storage test, on a missing file.
\<close>

theorem upsert_get_roundtrip_witness:
  "upsert_account sample_account NoFile =
     Inr (Json (JObj [(''accounts'', JObj [(''0000000001'', asdict sample_account)])])) \<and>
   get_account (account_number sample_account)
     (Json (JObj [(''accounts'', JObj [(''0000000001'', asdict sample_account)])])) =
     Inr (Some sample_account) \<and>
   load NoFile = Inr empty_document"
proof -
  have u: "upsert_account sample_account NoFile =
     Inr (Json (JObj [(''accounts'', JObj [(''0000000001'', asdict sample_account)])]))"
    by (simp add: upsert_account_def load_def empty_document_def save_def sample_account_def)
  have l: "load NoFile = Inr empty_document" by (simp add: load_def)
  show ?thesis
    using u l upsert_get_roundtrip [of sample_account NoFile
        "Json (JObj [(''accounts'', JObj [(''0000000001'', asdict sample_account)])])" empty_document]
    by simp
qed


text \<open>The candidate that the \<open>k\<close>-th coming iteration of the loop tries.\<close>

definition candidate :: "nat \<Rightarrow> world \<Rightarrow> nat \<Rightarrow> string" where
  "candidate digits w k = zfill digits (str_nat (entropy w (entropy_pos w + k) mod 10 ^ digits))"

lemma generate_returns:
  assumes "account_exists (candidate digits w k) (disk w) = Inr False"
    and "\<forall>j<k. account_exists (candidate digits w j) (disk w) = Inr True"
  shows "generate_unique_account_number digits w =
           Some (Inr (candidate digits w k), w\<lparr> entropy_pos := entropy_pos w + k + 1 \<rparr>)"
  using assms
proof (induction k arbitrary: w)
  case 0
  then show ?case
    by (subst generate_unique_account_number.simps) (simp add: candidate_def randbelow_def)
next
  case (Suc k)
  let ?w1 = "w\<lparr> entropy_pos := Suc (entropy_pos w) \<rparr>"
  have c: "candidate digits ?w1 j = candidate digits w (Suc j)" for j
    by (simp add: candidate_def)
  have first: "account_exists (candidate digits w 0) (disk w) = Inr True"
    using Suc.prems(2) by simp
  have "generate_unique_account_number digits ?w1 =
          Some (Inr (candidate digits ?w1 k), ?w1\<lparr> entropy_pos := entropy_pos ?w1 + k + 1 \<rparr>)"
    using Suc.prems by (intro Suc.IH) (simp_all add: c)
  then have rec: "generate_unique_account_number digits ?w1 =
          Some (Inr (candidate digits w (Suc k)), w\<lparr> entropy_pos := entropy_pos w + Suc k + 1 \<rparr>)"
    by (simp add: c)
  show ?case
    using first rec
    by (subst generate_unique_account_number.simps) (simp add: candidate_def randbelow_def)
qed

definition sample_world :: world where
  "sample_world = \<lparr> stdin_lines = [], stdout_text = [], disk = NoFile, entropy = (\<lambda>n. 5),
     entropy_pos = 0, clock_iso = (\<lambda>n. ''2025-01-01T00:00:00+00:00''), clock_pos = 0,
     eof_seen = False \<rparr>"

text \<open>
  Claim C8.  Every string that \<open>generate_unique_account_number(digits=10)\<close> returns has
  exactly 10 characters, all of them ASCII digits, and is not a key of the accounts in
  the storage file (which the generator leaves as it was): \<open>account_exists\<close> is false for
  it and \<open>get_account\<close> finds nothing.  And the generator does return: when the candidates
  of the first \<open>k\<close> iterations exist in the storage and the next one does not, it returns
  that one, after \<open>k + 1\<close> draws.
\<close>

theorem generated_number_is_fresh:
  "(generate_unique_account_number 10 w = Some (Inr acc, w') \<longrightarrow>
      length acc = 10 \<and> (\<forall>c \<in> set acc. c \<in> set ''0123456789'') \<and>
      account_exists acc (disk w) = Inr False \<and> get_account acc (disk w) = Inr None \<and>
      disk w' = disk w) \<and>
   (account_exists (candidate 10 w k) (disk w) = Inr False \<and>
    (\<forall>j<k. account_exists (candidate 10 w j) (disk w) = Inr True) \<longrightarrow>
      generate_unique_account_number 10 w =
        Some (Inr (candidate 10 w k), w\<lparr> entropy_pos := entropy_pos w + k + 1 \<rparr>))"
proof (intro conjI impI)
  assume g: "generate_unique_account_number 10 w = Some (Inr acc, w')"
  have post: "gen_post 10 w (Inr acc, w')"
    using generate_partial [OF g] .
  then obtain n where n: "n < 10 ^ 10" "acc = zfill 10 (str_nat n)"
    and ex: "account_exists acc (disk w) = Inr False" and d: "disk w' = disk w"
    by (auto simp: gen_post_def)
  show "length acc = 10"
    unfolding n(2) using n(1) by (intro zfill_str_nat_length) simp_all
  show "\<forall>c \<in> set acc. c \<in> set ''0123456789''"
    unfolding n(2) using zfill_str_nat_digits [of 10 n] by blast
  show "account_exists acc (disk w) = Inr False" by (rule ex)
  show "get_account acc (disk w) = Inr None" by (rule not_exists_get_None [OF ex])
  show "disk w' = disk w" by (rule d)
next
  assume "account_exists (candidate 10 w k) (disk w) = Inr False \<and>
    (\<forall>j<k. account_exists (candidate 10 w j) (disk w) = Inr True)"
  then show "generate_unique_account_number 10 w =
        Some (Inr (candidate 10 w k), w\<lparr> entropy_pos := entropy_pos w + k + 1 \<rparr>)"
    using generate_returns [of 10 w k] by blast
qed

text \<open>
  A storage file that holds the account 0000000005, and a random source whose first draw
  is 5 and whose later draws are 7: the first candidate of the generator is taken.
\<close>

definition taken_world :: world where
  "taken_world = sample_world\<lparr>
     disk := Json (JObj [(''accounts'',
               JObj [(''0000000005'', asdict (sample_account\<lparr> account_number := ''0000000005'' \<rparr>))])]),
     entropy := (\<lambda>n. if n = 0 then 5 else 7) \<rparr>"

lemma zfill_5: "zfill 10 ''5'' = ''0000000005''"
  by code_simp

lemma zfill_7: "zfill 10 ''7'' = ''0000000007''"
  by code_simp

text \<open>
  Claim C8 on that world: the generator finds 0000000005 in the storage, draws again and
  returns 0000000007, which is not in the storage.
\<close>

theorem generated_number_is_fresh_witness:
  "account_exists ''0000000005'' (disk taken_world) = Inr True \<and>
   account_exists ''0000000007'' (disk taken_world) = Inr False \<and>
   get_account ''0000000007'' (disk taken_world) = Inr None \<and>
   candidate 10 taken_world 0 = ''0000000005'' \<and>
   candidate 10 taken_world 1 = ''0000000007'' \<and>
   generate_unique_account_number 10 taken_world =
     Some (Inr ''0000000007'', taken_world\<lparr> entropy_pos := 2 \<rparr>) \<and>
   length ''0000000007'' = 10"
proof -
  have c0: "candidate 10 taken_world 0 = ''0000000005''"
    by (simp add: candidate_def taken_world_def sample_world_def str_nat.simps digit_char_def
        zfill_5)
  have c1: "candidate 10 taken_world 1 = ''0000000007''"
    by (simp add: candidate_def taken_world_def sample_world_def str_nat.simps digit_char_def
        zfill_7)
  have e0: "account_exists ''0000000005'' (disk taken_world) = Inr True"
    by (simp add: account_exists_def load_def taken_world_def)
  have e1: "account_exists ''0000000007'' (disk taken_world) = Inr False"
    by (simp add: account_exists_def load_def taken_world_def)
  have p: "entropy_pos taken_world = 0"
    by (simp add: taken_world_def sample_world_def)
  have all: "\<forall>j<1. account_exists (candidate 10 taken_world j) (disk taken_world) = Inr True"
    using c0 e0 by simp
  have g: "generate_unique_account_number 10 taken_world =
     Some (Inr ''0000000007'', taken_world\<lparr> entropy_pos := 2 \<rparr>)"
    using generated_number_is_fresh [of taken_world "''0000000007''"
        "taken_world\<lparr> entropy_pos := 2 \<rparr>" 1] c1 e1 all p
    by simp
  show ?thesis
    using c0 c1 e0 e1 g
      generated_number_is_fresh [of taken_world "''0000000007''"
        "taken_world\<lparr> entropy_pos := 2 \<rparr>" 1]
    by simp
qed


section \<open>Lesson 1: properties of the credentials\<close>

text \<open>The standard test vector of SHA-256 for the message \<open>abc\<close>.\<close>

lemma sha256_abc:
  "hex (sha256 [0x61, 0x62, 0x63]) =
     ''ba7816bf8f01cfea414140de5dae2223b00361a396177a9cb410ff61f20015ad''"
  by code_simp

lemma hex_digit_cases:
  assumes "n < 16"
  shows "hex_val (hex_digit n) = Some n \<and> \<not> is_ascii_space (hex_digit n)"
proof -
  have "n = 0 \<or> n = 1 \<or> n = 2 \<or> n = 3 \<or> n = 4 \<or> n = 5 \<or> n = 6 \<or> n = 7 \<or> n = 8 \<or>
        n = 9 \<or> n = 10 \<or> n = 11 \<or> n = 12 \<or> n = 13 \<or> n = 14 \<or> n = 15"
    using assms by arith
  then show ?thesis
    by (elim disjE; simp add: hex_digit_def hex_val_def is_ascii_space_def)
qed

lemma byte_nibbles: "of_nat (16 * (unat b div 16) + unat b mod 16) = (b :: byte)"
  by simp

lemma fromhex_hex: "fromhex (hex bs) = Inr bs"
proof (induction bs)
  case Nil
  show ?case by (simp add: hex_def)
next
  case (Cons b bs)
  have hi: "unat b div 16 < 16"
    using unsigned_less [of b, where ?'a = nat] by (simp add: less_mult_imp_div_less)
  have lo: "unat b mod 16 < 16" by simp
  have "hex (b # bs) = hex_digit (unat b div 16) # hex_digit (unat b mod 16) # hex bs"
    by (simp add: hex_def)
  then show ?case
    using hex_digit_cases [OF hi] hex_digit_cases [OF lo] Cons.IH byte_nibbles [of b]
    by (simp del: of_nat_add of_nat_mult)
qed

lemma fold_or_zero:
  "fold (\<lambda>(x, y) acc. acc OR (x XOR y)) xs (acc :: byte) = 0 \<longleftrightarrow>
     acc = 0 \<and> (\<forall>(x, y) \<in> set xs. x = y)"
proof (induction xs arbitrary: acc)
  case Nil
  show ?case by simp
next
  case (Cons p xs)
  obtain x y where p: "p = (x, y)" by (cases p)
  have "y = x XOR (x XOR y)"
    by (simp add: xor.assoc [symmetric])
  then have "x XOR y = 0 \<longleftrightarrow> x = y"
    by (metis xor.right_neutral xor_self_eq)
  then have "acc OR (x XOR y) = 0 \<longleftrightarrow> acc = 0 \<and> x = y"
    by (simp add: or_eq_0_iff)
  then show ?case by (auto simp: p Cons.IH)
qed

lemma compare_digest_iff: "compare_digest a b \<longleftrightarrow> a = b"
  by (auto simp: compare_digest_def fold_or_zero list_eq_iff_zip_eq)

lemma verify_pin_own_record:
  "verify_pin pin (hex salt) (hex (hash_pin pin salt)) = Inr True"
  by (simp add: verify_pin_def fromhex_hex compare_digest_iff)

text \<open>
  Claim C5.  Verifying a PIN against the pair of salt and hash (both in hexadecimal) that
  \<open>_make_pin_record\<close> produced for the same PIN returns true.  This holds for every PIN
  and every salt drawn, so in particular for every PIN of 4 to 8 digits.
\<close>

theorem verify_pin_accepts_own_record:
  assumes "make_pin_record pin w = ((salt_hex, hash_hex), w')"
  shows "verify_pin pin salt_hex hash_hex = Inr True"
proof -
  obtain salt w1 where t: "token_bytes 16 w = (salt, w1)" by (cases "token_bytes 16 w")
  have "salt_hex = hex salt" "hash_hex = hex (hash_pin pin salt)"
    using assms t by (simp_all add: make_pin_record_def)
  then show ?thesis by (simp add: verify_pin_own_record)
qed

text \<open>Claim C5 at the PIN \<open>1234\<close>, with a random source that yields the salt 05...05.\<close>

theorem verify_pin_accepts_own_record_witness:
  "isdigit ''1234'' \<and>
   make_pin_record ''1234'' sample_world =
     ((hex (replicate 16 5), hex (sha256 (replicate 16 5 @ [0x31, 0x32, 0x33, 0x34]))),
      sample_world\<lparr> entropy_pos := 16 \<rparr>) \<and>
   verify_pin ''1234'' (hex (replicate 16 5))
     (hex (sha256 (replicate 16 5 @ [0x31, 0x32, 0x33, 0x34]))) = Inr True"
proof -
  have d: "isdigit ''1234''"
    by (simp add: isdigit_def is_digit_char_def)
  have m: "map (\<lambda>i. 5) [0..<16] = replicate 16 (5 :: byte)"
    by (simp add: map_replicate_const)
  have r: "make_pin_record ''1234'' sample_world =
     ((hex (replicate 16 5), hex (sha256 (replicate 16 5 @ [0x31, 0x32, 0x33, 0x34]))),
      sample_world\<lparr> entropy_pos := 16 \<rparr>)"
    by (simp add: make_pin_record_def token_bytes_def sample_world_def hash_pin_def
        encode_utf8_def m)
  show ?thesis
    using d r verify_pin_accepts_own_record [OF r] by simp
qed


section \<open>Lesson 1: the flows of the controller\<close>

text \<open>\<open>datetime.now(timezone.utc).isoformat(timespec="seconds")\<close>: the next reading of the clock.\<close>

definition utc_now_iso :: "world \<Rightarrow> string \<times> world" where
  "utc_now_iso w = (clock_iso w (clock_pos w), w\<lparr> clock_pos := clock_pos w + 1 \<rparr>)"

text \<open>
  \<open>flow_create_account\<close>, first part: the questions, the new account number, the PIN and
  the first \<open>upsert_account\<close> of the record, with balance 0.
\<close>

definition new_account_record :: "world \<Rightarrow> ((error + account) \<times> world) option" where
  "new_account_record w =
     (let w1 = info ''=== Sozdanie novogo scheta ==='' (info [] w)
      in case ask_text ''Vvedite vashe imya'' 1 w1 of
           (Inl e, w2) \<Rightarrow> Some (Inl e, w2)
         | (Inr nm, w2) \<Rightarrow>
      (case ask_text ''Vvedite vashu familiyu'' 1 w2 of
           (Inl e, w3) \<Rightarrow> Some (Inl e, w3)
         | (Inr sn, w3) \<Rightarrow>
      (case ask_text ''Vvedite vash ID (mozhno cifry/bukvy)'' 1 w3 of
           (Inl e, w4) \<Rightarrow> Some (Inl e, w4)
         | (Inr idn, w4) \<Rightarrow>
      (case generate_unique_account_number 10 w4 of
           None \<Rightarrow> None
         | Some (Inl e, w5) \<Rightarrow> Some (Inl e, w5)
         | Some (Inr number, w5) \<Rightarrow>
      (case ask_pin_create w5 of
           (Inl e, w6) \<Rightarrow> Some (Inl e, w6)
         | (Inr pin, w6) \<Rightarrow>
      (let ((salt_hex, hash_hex), w7) = make_pin_record pin w6;
           (created, w8) = utc_now_iso w7;
           a = \<lparr> account_number = number, name = nm, surname = sn, id_number = idn,
                 pin_salt_hex = salt_hex, pin_hash_hex = hash_hex, balance_cents = 0,
                 created_at = created \<rparr>
       in case upsert_account a (disk w8) of
            Inl e \<Rightarrow> Some (Inl e, w8)
          | Inr f \<Rightarrow> Some (Inr a, show_account_created (account_number a) (w8\<lparr> disk := f \<rparr>))))))))"

text \<open>\<open>flow_create_account\<close>, second part: the initial deposit.\<close>

definition initial_deposit :: "account \<Rightarrow> world \<Rightarrow> (error + account) \<times> world" where
  "initial_deposit a w =
     (case ask_money_amount ''Vnesite summu na schet (naprimer 100 ili 100.50)'' w of
        (Inl e, w1) \<Rightarrow> (Inl e, w1)
      | (Inr deposit, w1) \<Rightarrow>
          if deposit > 0
          then (let a' = a\<lparr> balance_cents := balance_cents a + deposit \<rparr>
                in case upsert_account a' (disk w1) of
                     Inl e \<Rightarrow> (Inl e, w1)
                   | Inr f \<Rightarrow>
                       (Inr a', show_balance (balance_cents a')
                                  (info (''Zachisleno: '' @ format_money deposit)
                                     (w1\<lparr> disk := f \<rparr>))))
          else (Inr a, show_balance (balance_cents a)
                         (info ''Summa 0 - propuskaem popolnenie.'' w1)))"

definition flow_create_account :: "world \<Rightarrow> ((error + account) \<times> world) option" where
  "flow_create_account w =
     (case new_account_record w of
        None \<Rightarrow> None
      | Some (Inl e, w1) \<Rightarrow> Some (Inl e, w1)
      | Some (Inr a, w1) \<Rightarrow> Some (initial_deposit a w1))"

text \<open>\<open>flow_login\<close>: an account object is always true, so \<open>not account\<close> means \<open>None\<close>.\<close>

definition flow_login :: "world \<Rightarrow> (error + account option) \<times> world" where
  "flow_login w =
     (let w1 = info ''=== Vhod v sushchestvuyushchij schet ==='' (info [] w)
      in case ask_digits ''Vvedite nomer scheta'' 10 (Some 10) w1 of
           (Inl e, w2) \<Rightarrow> (Inl e, w2)
         | (Inr acc_num, w2) \<Rightarrow>
             (case get_account acc_num (disk w2) of
                Inl e \<Rightarrow> (Inl e, w2)
              | Inr None \<Rightarrow> (Inr None, error ''Schet ne najden.'' w2)
              | Inr (Some a) \<Rightarrow>
                  (case ask_pin_login w2 of
                     (Inl e, w3) \<Rightarrow> (Inl e, w3)
                   | (Inr pin, w3) \<Rightarrow>
                       (case verify_pin pin (pin_salt_hex a) (pin_hash_hex a) of
                          Inl e \<Rightarrow> (Inl e, w3)
                        | Inr ok \<Rightarrow>
                            if \<not> ok then (Inr None, error ''Nevernyj PIN.'' w3)
                            else (Inr (Some a),
                                  show_balance (balance_cents a)
                                    (info (''Uspeshnyj vhod. Dobro pozhalovat', '' @ name a @
                                           '' '' @ surname a @ ''!'') w3))))))"

text \<open>
  The branches of the loop of \<open>flow_session\<close>.  Each returns what happens next (an
  exception, or whether the loop goes on), the account object and the world.
\<close>

definition session_deposit :: "account \<Rightarrow> world \<Rightarrow> (error + bool) \<times> account \<times> world" where
  "session_deposit a w =
     (case ask_money_amount ''Skol'ko vnesti?'' w of
        (Inl e, w1) \<Rightarrow> (Inl e, a, w1)
      | (Inr amount, w1) \<Rightarrow>
          if amount \<le> 0
          then (Inr True, a, error ''Summa popolneniya dolzhna byt' bol'she 0.'' w1)
          else (let a' = a\<lparr> balance_cents := balance_cents a + amount \<rparr>
                in case upsert_account a' (disk w1) of
                     Inl e \<Rightarrow> (Inl e, a', w1)
                   | Inr f \<Rightarrow>
                       (Inr True, a',
                        show_balance (balance_cents a')
                          (info (''Zachisleno: '' @ format_money amount) (w1\<lparr> disk := f \<rparr>)))))"

definition session_withdraw :: "account \<Rightarrow> world \<Rightarrow> (error + bool) \<times> account \<times> world" where
  "session_withdraw a w =
     (case ask_money_amount ''Skol'ko snyat'?'' w of
        (Inl e, w1) \<Rightarrow> (Inl e, a, w1)
      | (Inr amount, w1) \<Rightarrow>
          if amount \<le> 0
          then (Inr True, a, error ''Summa snyatiya dolzhna byt' bol'she 0.'' w1)
          else if amount > balance_cents a
          then (Inr True, a, show_balance (balance_cents a) (error ''Nedostatochno sredstv.'' w1))
          else (let a' = a\<lparr> balance_cents := balance_cents a - amount \<rparr>
                in case upsert_account a' (disk w1) of
                     Inl e \<Rightarrow> (Inl e, a', w1)
                   | Inr f \<Rightarrow>
                       (Inr True, a',
                        show_balance (balance_cents a')
                          (info (''Vydano: '' @ format_money amount) (w1\<lparr> disk := f \<rparr>)))))"

definition session_step :: "account \<Rightarrow> world \<Rightarrow> (error + bool) \<times> account \<times> world" where
  "session_step a w =
     (case menu_main w of
        (Inl e, w1) \<Rightarrow> (Inl e, a, w1)
      | (Inr choice, w1) \<Rightarrow>
          if choice = ''1'' then session_deposit a w1
          else if choice = ''2'' then session_withdraw a w1
          else if choice = ''3'' then (Inr True, a, show_balance (balance_cents a) w1)
          else if choice = ''0'' then (Inr False, a, info ''Vyhod v glavnoe menyu.'' w1)
          else (Inr True, a, error ''Neizvestnyj punkt menyu.'' w1))"

lemma menu_main_io_ok: "menu_main w = (r, w') \<Longrightarrow> io_ok r w w'"
proof -
  assume a: "menu_main w = (r, w')"
  let ?w5 = "stdout [''0) Vyhod''] '' '' [NL]
        (stdout [''3) Pokazat' balans''] '' '' [NL]
          (stdout [''2) Snyat' den'gi so scheta''] '' '' [NL]
            (stdout [''1) Vnesti den'gi na schet''] '' '' [NL] (stdout [[]] '' '' [NL] w))))"
  obtain r0 w0 where st: "stdin ''Vyberite dejstvie'' ?w5 = (r0, w0)"
    by (cases "stdin ''Vyberite dejstvie'' ?w5")
  have "io_ok r0 ?w5 w0" by (rule stdin_io_ok [OF st])
  then have "io_ok r0 w w0" by (simp add: io_ok_def flow_ok_def)
  then show ?thesis
    using a st by (cases r0) (auto simp: menu_main_def Let_def intro: io_ok_Inr_any io_ok_Inl)
qed

lemma menu_main_consumes:
  assumes "menu_main w = (Inr c, w')"
  shows "length (stdin_lines w') < length (stdin_lines w)"
proof -
  let ?w5 = "stdout [''0) Vyhod''] '' '' [NL]
        (stdout [''3) Pokazat' balans''] '' '' [NL]
          (stdout [''2) Snyat' den'gi so scheta''] '' '' [NL]
            (stdout [''1) Vnesti den'gi na schet''] '' '' [NL] (stdout [[]] '' '' [NL] w))))"
  obtain r0 w0 where st: "stdin ''Vyberite dejstvie'' ?w5 = (r0, w0)"
    by (cases "stdin ''Vyberite dejstvie'' ?w5")
  with assms obtain line where r0: "r0 = Inr line" and w0: "w0 = w'"
    by (cases r0) (auto simp: menu_main_def Let_def)
  have "length (stdin_lines w0) < length (stdin_lines ?w5)"
    using st unfolding r0 by (rule stdin_consumes)
  then show ?thesis by (simp add: w0)
qed

lemma upsert_account_load_ok:
  assumes "upsert_account a f = Inr g"
  shows "\<exists>data. load g = Inr data"
proof -
  obtain data where data: "load f = Inr data"
    using assms by (cases "load f") (auto simp: upsert_account_def)
  obtain dk ak where d: "data = JObj dk" "map_of dk ''accounts'' = Some (JObj ak)"
    using load_shape [OF data] by blast
  have "g = Json (JObj (AList.update ''accounts''
                  (JObj (AList.update (account_number a) (asdict a) ak)) dk))"
    using upsert_account_result [of f dk ak a] data d assms by simp
  then show ?thesis by (simp add: load_def update_conv')
qed


lemma session_deposit_flow_ok:
  assumes "session_deposit a w = (r, a', w')"
  shows "flow_ok r w w'"
proof -
  obtain r0 w0 where am: "ask_money_amount ''Skol'ko vnesti?'' w = (r0, w0)"
    by (cases "ask_money_amount ''Skol'ko vnesti?'' w")
  have "io_ok r0 w w0" by (rule ask_money_amount_io_ok [OF am])
  then show ?thesis
    using assms am
    by (cases r0)
       (auto simp: session_deposit_def Let_def io_ok_def flow_ok_def split: if_splits sum.splits)
qed

lemma session_withdraw_flow_ok:
  assumes "session_withdraw a w = (r, a', w')"
  shows "flow_ok r w w'"
proof -
  obtain r0 w0 where am: "ask_money_amount ''Skol'ko snyat'?'' w = (r0, w0)"
    by (cases "ask_money_amount ''Skol'ko snyat'?'' w")
  have "io_ok r0 w w0" by (rule ask_money_amount_io_ok [OF am])
  then show ?thesis
    using assms am
    by (cases r0)
       (auto simp: session_withdraw_def Let_def io_ok_def flow_ok_def split: if_splits sum.splits)
qed

lemma session_step_flow_ok:
  assumes "session_step a w = (r, a', w')"
  shows "flow_ok r w w'"
proof -
  obtain r0 w0 where mm: "menu_main w = (r0, w0)" by (cases "menu_main w")
  have ok0: "io_ok r0 w w0" by (rule menu_main_io_ok [OF mm])
  show ?thesis
  proof (cases r0)
    case (Inl e)
    with assms mm ok0 show ?thesis by (auto simp: session_step_def io_ok_def flow_ok_def)
  next
    case (Inr choice)
    have f0: "flow_ok (Inr choice) w w0" using ok0 Inr by (simp add: io_ok_def)
    have rest: "flow_ok r w0 w'"
      using assms mm Inr session_deposit_flow_ok [of a w0 r a' w']
        session_withdraw_flow_ok [of a w0 r a' w']
      by (auto simp: session_step_def flow_ok_def split: if_splits)
    show ?thesis by (rule flow_ok_step [OF f0 rest])
  qed
qed

lemma session_step_consumes:
  assumes "session_step a w = (Inr b, a', w')"
  shows "length (stdin_lines w') < length (stdin_lines w)"
proof -
  obtain r0 w0 where mm: "menu_main w = (r0, w0)" by (cases "menu_main w")
  from assms mm obtain choice where r0: "r0 = Inr choice"
    by (cases r0) (auto simp: session_step_def)
  have lt: "length (stdin_lines w0) < length (stdin_lines w)"
    using mm unfolding r0 by (rule menu_main_consumes)
  have "flow_ok (Inr b :: error + bool) w0 w'"
    using assms mm r0 session_deposit_flow_ok [of a w0 "Inr b" a' w']
      session_withdraw_flow_ok [of a w0 "Inr b" a' w']
    by (auto simp: session_step_def flow_ok_def split: if_splits)
  then show ?thesis using lt by (simp add: flow_ok_def)
qed

text \<open>\<open>flow_session\<close>: the loop.\<close>

function flow_session :: "account \<Rightarrow> world \<Rightarrow> (error + unit) \<times> account \<times> world" where
  "flow_session a w =
     (case session_step a w of
        (Inl e, a', w') \<Rightarrow> (Inl e, a', w')
      | (Inr again, a', w') \<Rightarrow> if again then flow_session a' w' else (Inr (), a', w'))"
  by pat_completeness auto
termination
  by (relation "measure (\<lambda>(a, w). length (stdin_lines w))")
     (auto dest: session_step_consumes [OF sym])

declare flow_session.simps [simp del]

lemma flow_session_flow_ok: "flow_session a w = (r, a', w') \<Longrightarrow> flow_ok r w w'"
proof (induction "length (stdin_lines w)" arbitrary: a w rule: less_induct)
  case less
  obtain r0 a0 w0 where ss: "session_step a w = (r0, a0, w0)"
    by (cases "session_step a w") auto
  have ok0: "flow_ok r0 w w0" by (rule session_step_flow_ok [OF ss])
  show ?case
  proof (cases r0)
    case (Inl e)
    with less.prems ss ok0 show ?thesis
      by (subst (asm) flow_session.simps) (auto simp: flow_ok_def)
  next
    case (Inr again)
    show ?thesis
    proof (cases again)
      case True
      have lt: "length (stdin_lines w0) < length (stdin_lines w)"
        using ss unfolding Inr by (rule session_step_consumes)
      have "flow_session a0 w0 = (r, a', w')"
        using less.prems ss Inr True by (subst (asm) flow_session.simps) simp
      then have "flow_ok r w0 w'" using less.hyps [OF lt] by simp
      then show ?thesis using ok0 Inr by (auto simp: flow_ok_def)
    next
      case False
      with less.prems ss Inr ok0 show ?thesis
        by (subst (asm) flow_session.simps) (auto simp: flow_ok_def)
    qed
  qed
qed


lemma ask_pin_create_loop_io_ok: "ask_pin_create_loop w = (r, w') \<Longrightarrow> io_ok r w w'"
proof (induction "length (stdin_lines w)" arbitrary: w rule: less_induct)
  case less
  obtain r1 w1 where a1: "ask_digits ''Vvedite PIN'' 4 (Some 8) w = (r1, w1)"
    by (cases "ask_digits ''Vvedite PIN'' 4 (Some 8) w")
  note ok1 = ask_digits_io_ok [OF a1]
  show ?case
  proof (cases r1)
    case (Inl e)
    with less.prems a1 ok1 show ?thesis
      by (subst (asm) ask_pin_create_loop.simps) auto
  next
    case pin1: (Inr pin1)
    have lt1: "length (stdin_lines w1) < length (stdin_lines w)"
      using a1 unfolding pin1 by (rule ask_digits_consumes)
    obtain r2 w2 where a2: "ask_digits ''Povtorite PIN'' 4 (Some 8) w1 = (r2, w2)"
      by (cases "ask_digits ''Povtorite PIN'' 4 (Some 8) w1")
    note ok2 = ask_digits_io_ok [OF a2]
    have ok12: "io_ok r2 w w2" using ok1 ok2 unfolding pin1 by (rule io_ok_step)
    show ?thesis
    proof (cases r2)
      case (Inl e)
      with less.prems a1 a2 pin1 ok12 show ?thesis
        by (subst (asm) ask_pin_create_loop.simps) auto
    next
      case pin2: (Inr pin2)
      show ?thesis
      proof (cases "pin1 = pin2")
        case True
        with less.prems a1 a2 pin1 pin2 ok12 show ?thesis
          by (subst (asm) ask_pin_create_loop.simps) auto
      next
        case False
        let ?w3 = "error ''PIN ne sovpadaet. Poprobujte eshchyo raz.'' w2"
        have rec: "ask_pin_create_loop ?w3 = (r, w')"
          using less.prems a1 a2 pin1 pin2 False
          by (subst (asm) ask_pin_create_loop.simps) simp
        have "length (stdin_lines ?w3) < length (stdin_lines w)"
          using lt1 ok2 by (simp add: io_ok_def flow_ok_def)
        from less.hyps [OF this rec] have "io_ok r ?w3 w'" .
        then show ?thesis using ok12 unfolding pin2 by (auto simp: io_ok_def flow_ok_def)
      qed
    qed
  qed
qed

lemma ask_pin_create_io_ok: "ask_pin_create w = (r, w') \<Longrightarrow> io_ok r w w'"
  using ask_pin_create_loop_io_ok [of "info ''Sozdajte PIN-kod (4-8 cifr).'' w" r w']
  by (simp add: ask_pin_create_def io_ok_def flow_ok_def)

lemma make_pin_record_fields [simp]:
  "stdin_lines (snd (make_pin_record pin w)) = stdin_lines w"
  "eof_seen (snd (make_pin_record pin w)) = eof_seen w"
  "disk (snd (make_pin_record pin w)) = disk w"
  by (simp_all add: make_pin_record_def token_bytes_def Let_def)

lemma utc_now_iso_fields [simp]:
  "stdin_lines (snd (utc_now_iso w)) = stdin_lines w"
  "eof_seen (snd (utc_now_iso w)) = eof_seen w"
  "disk (snd (utc_now_iso w)) = disk w"
  by (simp_all add: utc_now_iso_def)

lemma generate_flow_ok:
  assumes "generate_unique_account_number d w = Some (r, w')"
  shows "flow_ok r w w' \<and> disk w' = disk w"
  using generate_partial [OF assms] by (simp add: gen_post_def flow_ok_def)


lemma new_account_record_flow_ok:
  assumes "new_account_record w = Some (r, w')"
  shows "flow_ok r w w'"
proof -
  let ?w1 = "info ''=== Sozdanie novogo scheta ==='' (info [] w)"
  have s0: "flow_ok (Inr ()) w ?w1" by (simp add: flow_ok_def)
  obtain r2 w2 where a2: "ask_text ''Vvedite vashe imya'' 1 ?w1 = (r2, w2)"
    by (cases "ask_text ''Vvedite vashe imya'' 1 ?w1")
  have k2: "flow_ok r2 w w2"
    using ask_text_io_ok [OF a2] by (simp add: io_ok_def flow_ok_def)
  show ?thesis
  proof (cases r2)
    case (Inl e)
    with assms a2 k2 show ?thesis by (auto simp: new_account_record_def flow_ok_def)
  next
    case nm: (Inr nm)
    obtain r3 w3 where a3: "ask_text ''Vvedite vashu familiyu'' 1 w2 = (r3, w3)"
      by (cases "ask_text ''Vvedite vashu familiyu'' 1 w2")
    have k3: "flow_ok r3 w w3"
      using ask_text_io_ok [OF a3] k2 nm by (auto simp: io_ok_def flow_ok_def)
    show ?thesis
    proof (cases r3)
      case (Inl e)
      with assms a2 a3 nm k3 show ?thesis by (auto simp: new_account_record_def flow_ok_def)
    next
      case sn: (Inr sn)
      obtain r4 w4 where a4: "ask_text ''Vvedite vash ID (mozhno cifry/bukvy)'' 1 w3 = (r4, w4)"
        by (cases "ask_text ''Vvedite vash ID (mozhno cifry/bukvy)'' 1 w3")
      have k4: "flow_ok r4 w w4"
        using ask_text_io_ok [OF a4] k3 sn by (auto simp: io_ok_def flow_ok_def)
      show ?thesis
      proof (cases r4)
        case (Inl e)
        with assms a2 a3 a4 nm sn k4 show ?thesis
          by (auto simp: new_account_record_def flow_ok_def)
      next
        case idn: (Inr idn)
        obtain r5 w5 where a5: "generate_unique_account_number 10 w4 = Some (r5, w5)"
          using assms a2 a3 a4 nm sn idn
          by (cases "generate_unique_account_number 10 w4")
             (auto simp: new_account_record_def)
        have k5: "flow_ok r5 w w5"
          using generate_flow_ok [OF a5] k4 idn by (auto simp: flow_ok_def)
        show ?thesis
        proof (cases r5)
          case (Inl e)
          with assms a2 a3 a4 a5 nm sn idn k5 show ?thesis
            by (auto simp: new_account_record_def flow_ok_def)
        next
          case num: (Inr number)
          obtain r6 w6 where a6: "ask_pin_create w5 = (r6, w6)" by (cases "ask_pin_create w5")
          have k6: "flow_ok r6 w w6"
            using ask_pin_create_io_ok [OF a6] k5 num by (auto simp: io_ok_def flow_ok_def)
          show ?thesis
          proof (cases r6)
            case (Inl e)
            with assms a2 a3 a4 a5 a6 nm sn idn num k6 show ?thesis
              by (auto simp: new_account_record_def flow_ok_def)
          next
            case pin: (Inr pin)
            obtain hx w7 where a7: "make_pin_record pin w6 = (hx, w7)"
              by (cases "make_pin_record pin w6")
            obtain created w8 where a8: "utc_now_iso w7 = (created, w8)"
              by (cases "utc_now_iso w7")
            have f7: "stdin_lines w7 = stdin_lines w6" "eof_seen w7 = eof_seen w6"
              using make_pin_record_fields [of pin w6] a7 by simp_all
            have f8: "stdin_lines w8 = stdin_lines w7" "eof_seen w8 = eof_seen w7"
              using utc_now_iso_fields [of w7] a8 by simp_all
            from assms a2 a3 a4 a5 a6 a7 a8 nm sn idn num pin k6 f7 f8 show ?thesis
              by (auto simp: new_account_record_def flow_ok_def Let_def
                  split: sum.splits prod.splits)
          qed
        qed
      qed
    qed
  qed
qed

lemma new_account_record_persisted:
  assumes "new_account_record w = Some (Inr a, w')"
  shows "balance_cents a = 0 \<and> get_account (account_number a) (disk w') = Inr (Some a)"
proof -
  have "\<exists>f g. upsert_account a f = Inr g \<and> disk w' = g \<and> balance_cents a = 0"
    using assms
    by (auto simp: new_account_record_def Let_def
        split: sum.splits prod.splits option.splits)
  then show ?thesis using get_account_after_upsert by blast
qed


lemma initial_deposit_flow_ok:
  assumes "initial_deposit a w = (r, w')"
  shows "flow_ok r w w'"
proof -
  obtain r0 w0 where am:
    "ask_money_amount ''Vnesite summu na schet (naprimer 100 ili 100.50)'' w = (r0, w0)"
    by (cases "ask_money_amount ''Vnesite summu na schet (naprimer 100 ili 100.50)'' w")
  have "io_ok r0 w w0" by (rule ask_money_amount_io_ok [OF am])
  then show ?thesis
    using assms am
    by (cases r0)
       (auto simp: initial_deposit_def Let_def io_ok_def flow_ok_def split: if_splits sum.splits)
qed

lemma flow_create_account_flow_ok:
  assumes "flow_create_account w = Some (r, w')"
  shows "flow_ok r w w'"
proof -
  obtain r1 w1 where n: "new_account_record w = Some (r1, w1)"
    using assms by (cases "new_account_record w") (auto simp: flow_create_account_def)
  note k1 = new_account_record_flow_ok [OF n]
  show ?thesis
  proof (cases r1)
    case (Inl e)
    with assms n k1 show ?thesis by (auto simp: flow_create_account_def flow_ok_def)
  next
    case (Inr a)
    then have "initial_deposit a w1 = (r, w')"
      using assms n by (simp add: flow_create_account_def)
    from initial_deposit_flow_ok [OF this] k1 Inr show ?thesis by (auto simp: flow_ok_def)
  qed
qed

lemma flow_login_flow_ok:
  assumes "flow_login w = (r, w')"
  shows "flow_ok r w w'"
proof -
  let ?w1 = "info ''=== Vhod v sushchestvuyushchij schet ==='' (info [] w)"
  obtain r2 w2 where a2: "ask_digits ''Vvedite nomer scheta'' 10 (Some 10) ?w1 = (r2, w2)"
    by (cases "ask_digits ''Vvedite nomer scheta'' 10 (Some 10) ?w1")
  have k2: "flow_ok r2 w w2"
    using ask_digits_io_ok [OF a2] by (simp add: io_ok_def flow_ok_def)
  show ?thesis
  proof (cases r2)
    case (Inl e)
    with assms a2 k2 show ?thesis by (auto simp: flow_login_def flow_ok_def)
  next
    case num: (Inr acc_num)
    obtain r3 w3 where a3: "ask_pin_login w2 = (r3, w3)" by (cases "ask_pin_login w2")
    have k3: "flow_ok r3 w w3"
      using ask_digits_io_ok [of "''Vvedite PIN''" 4 "Some 8" w2 r3 w3] a3 k2 num
      by (auto simp: ask_pin_login_def io_ok_def flow_ok_def)
    from assms a2 a3 num k2 k3 show ?thesis
      by (auto simp: flow_login_def flow_ok_def split: sum.splits option.splits if_splits)
  qed
qed

lemma menu_startup_io_ok: "menu_startup w = (r, w') \<Longrightarrow> io_ok r w w'"
proof -
  assume a: "menu_startup w = (r, w')"
  let ?w4 = "stdout [''0) Vyhod''] '' '' [NL]
          (stdout [''2) Vojti v sushchestvuyushchij schet''] '' '' [NL]
            (stdout [''1) Sozdat' novyj schet''] '' '' [NL] (stdout [[]] '' '' [NL] w)))"
  obtain r0 w0 where st: "stdin ''Vyberite dejstvie'' ?w4 = (r0, w0)"
    by (cases "stdin ''Vyberite dejstvie'' ?w4")
  have "io_ok r0 ?w4 w0" by (rule stdin_io_ok [OF st])
  then have "io_ok r0 w w0" by (simp add: io_ok_def flow_ok_def)
  then show ?thesis
    using a st by (cases r0) (auto simp: menu_startup_def Let_def intro: io_ok_Inr_any io_ok_Inl)
qed

lemma menu_startup_consumes:
  assumes "menu_startup w = (Inr c, w')"
  shows "length (stdin_lines w') < length (stdin_lines w)"
proof -
  let ?w4 = "stdout [''0) Vyhod''] '' '' [NL]
          (stdout [''2) Vojti v sushchestvuyushchij schet''] '' '' [NL]
            (stdout [''1) Sozdat' novyj schet''] '' '' [NL] (stdout [[]] '' '' [NL] w)))"
  obtain r0 w0 where st: "stdin ''Vyberite dejstvie'' ?w4 = (r0, w0)"
    by (cases "stdin ''Vyberite dejstvie'' ?w4")
  with assms obtain line where r0: "r0 = Inr line" and w0: "w0 = w'"
    by (cases r0) (auto simp: menu_startup_def Let_def)
  have "length (stdin_lines w0) < length (stdin_lines ?w4)"
    using st unfolding r0 by (rule stdin_consumes)
  then show ?thesis by (simp add: w0)
qed

text \<open>
  One round of the loop of \<open>run\<close> (not the first run): what happens next (an exception,
  or whether the loop goes on) and the world; \<open>None\<close> when the generation of an account
  number never ends.
\<close>

definition startup_step :: "world \<Rightarrow> ((error + bool) \<times> world) option" where
  "startup_step w =
     (case menu_startup w of
        (Inl e, w1) \<Rightarrow> Some (Inl e, w1)
      | (Inr choice, w1) \<Rightarrow>
          if choice = ''1''
          then (case flow_create_account w1 of
                  None \<Rightarrow> None
                | Some (Inl e, w2) \<Rightarrow> Some (Inl e, w2)
                | Some (Inr a, w2) \<Rightarrow>
                    (case flow_session a w2 of
                       (Inl e, a', w3) \<Rightarrow> Some (Inl e, w3)
                     | (Inr u, a', w3) \<Rightarrow> Some (Inr True, w3)))
          else if choice = ''2''
          then (case flow_login w1 of
                  (Inl e, w2) \<Rightarrow> Some (Inl e, w2)
                | (Inr None, w2) \<Rightarrow> Some (Inr True, w2)
                | (Inr (Some a), w2) \<Rightarrow>
                    (case flow_session a w2 of
                       (Inl e, a', w3) \<Rightarrow> Some (Inl e, w3)
                     | (Inr u, a', w3) \<Rightarrow> Some (Inr True, w3)))
          else if choice = ''0'' then Some (Inr False, info ''Do svidaniya!'' w1)
          else Some (Inr True, error ''Neizvestnyj punkt menyu.'' w1))"

lemma startup_step_flow_ok:
  assumes "startup_step w = Some (r, w')"
  shows "flow_ok r w w'"
proof -
  obtain r0 w0 where ms: "menu_startup w = (r0, w0)" by (cases "menu_startup w")
  have ok0: "flow_ok r0 w w0" using menu_startup_io_ok [OF ms] by (simp add: io_ok_def)
  show ?thesis
  proof (cases r0)
    case (Inl e)
    with assms ms ok0 show ?thesis by (auto simp: startup_step_def flow_ok_def)
  next
    case (Inr choice)
    have rest: "flow_ok r w0 w'"
    proof (cases "choice = ''1''")
      case True
      obtain r1 w1 where c: "flow_create_account w0 = Some (r1, w1)"
        using assms ms Inr True
        by (cases "flow_create_account w0") (auto simp: startup_step_def)
      note k1 = flow_create_account_flow_ok [OF c]
      show ?thesis
      proof (cases r1)
        case (Inl e)
        with assms ms Inr True c k1 show ?thesis by (auto simp: startup_step_def flow_ok_def)
      next
        case a: (Inr a)
        obtain r2 a2 w2 where fs: "flow_session a w1 = (r2, a2, w2)"
          by (cases "flow_session a w1") auto
        note k2 = flow_session_flow_ok [OF fs]
        from assms ms Inr True c a fs k1 k2 show ?thesis
          by (auto simp: startup_step_def flow_ok_def split: sum.splits)
      qed
    next
      case not1: False
      show ?thesis
      proof (cases "choice = ''2''")
        case True
        obtain r1 w1 where l: "flow_login w0 = (r1, w1)" by (cases "flow_login w0")
        note k1 = flow_login_flow_ok [OF l]
        show ?thesis
        proof (cases r1)
          case (Inl e)
          with assms ms Inr not1 True l k1 show ?thesis
            by (auto simp: startup_step_def flow_ok_def)
        next
          case oa: (Inr oa)
          show ?thesis
          proof (cases oa)
            case None
            with assms ms Inr not1 True l oa k1 show ?thesis
              by (auto simp: startup_step_def flow_ok_def)
          next
            case (Some a)
            obtain r2 a2 w2 where fs: "flow_session a w1 = (r2, a2, w2)"
              by (cases "flow_session a w1") auto
            note k2 = flow_session_flow_ok [OF fs]
            from assms ms Inr not1 True l oa Some fs k1 k2 show ?thesis
              by (auto simp: startup_step_def flow_ok_def split: sum.splits)
          qed
        qed
      next
        case False
        with assms ms Inr not1 show ?thesis
          by (auto simp: startup_step_def flow_ok_def split: if_splits)
      qed
    qed
    show ?thesis using ok0 rest unfolding Inr by (rule flow_ok_step)
  qed
qed

lemma startup_step_consumes:
  assumes "startup_step w = Some (Inr b, w')"
  shows "length (stdin_lines w') < length (stdin_lines w)"
proof -
  obtain r0 w0 where ms: "menu_startup w = (r0, w0)" by (cases "menu_startup w")
  from assms ms obtain choice where r0: "r0 = Inr choice"
    by (cases r0) (auto simp: startup_step_def)
  have lt: "length (stdin_lines w0) < length (stdin_lines w)"
    using ms unfolding r0 by (rule menu_startup_consumes)
  have "length (stdin_lines w') \<le> length (stdin_lines w0)"
  proof -
    have "io_ok (Inr choice) w w0" using menu_startup_io_ok [OF ms] r0 by simp
    moreover have "flow_ok (Inr b :: error + bool) w w'" by (rule startup_step_flow_ok [OF assms])
    ultimately show ?thesis
      using assms ms r0
        flow_create_account_flow_ok [of w0] flow_login_flow_ok [of w0] flow_session_flow_ok
      by (auto simp: startup_step_def flow_ok_def
          split: if_splits option.splits sum.splits prod.splits)
         (fastforce simp: flow_ok_def)+
  qed
  then show ?thesis using lt by simp
qed

function run_loop :: "world \<Rightarrow> ((error + unit) \<times> world) option" where
  "run_loop w =
     (case startup_step w of
        None \<Rightarrow> None
      | Some (Inl e, w') \<Rightarrow> Some (Inl e, w')
      | Some (Inr again, w') \<Rightarrow> if again then run_loop w' else Some (Inr (), w'))"
  by pat_completeness auto
termination
  by (relation "measure (\<lambda>w. length (stdin_lines w))")
     (auto dest: startup_step_consumes startup_step_consumes [OF sym])

declare run_loop.simps [simp del]

text \<open>\<open>ATMController.run\<close>.\<close>

definition run :: "world \<Rightarrow> ((error + unit) \<times> world) option" where
  "run w =
     (let w1 = show_title w
      in case has_any_accounts (disk w1) of
           Inl e \<Rightarrow> Some (Inl e, w1)
         | Inr any \<Rightarrow>
             if \<not> any
             then (let w2 = pause ''Nazhmite Enter, chtoby prodolzhit'...''
                              (info ''Pohozhe, eto pervyj zapusk: akkauntov eshchyo net.'' w1)
                   in case flow_create_account w2 of
                        None \<Rightarrow> None
                      | Some (Inl e, w3) \<Rightarrow> Some (Inl e, w3)
                      | Some (Inr a, w3) \<Rightarrow>
                          (case flow_session a w3 of
                             (Inl e, a', w4) \<Rightarrow> Some (Inl e, w4)
                           | (Inr u, a', w4) \<Rightarrow> Some (Inr (), info ''Do svidaniya!'' w4)))
             else run_loop w1)"

lemma run_loop_flow_ok: "run_loop w = Some (r, w') \<Longrightarrow> flow_ok r w w'"
proof (induction "length (stdin_lines w)" arbitrary: w rule: less_induct)
  case less
  obtain r0 w0 where ss: "startup_step w = Some (r0, w0)"
    using less.prems by (subst (asm) run_loop.simps) (auto split: option.splits)
  have ok0: "flow_ok r0 w w0" by (rule startup_step_flow_ok [OF ss])
  show ?case
  proof (cases r0)
    case (Inl e)
    with less.prems ss ok0 show ?thesis
      by (subst (asm) run_loop.simps) (auto simp: flow_ok_def)
  next
    case (Inr again)
    show ?thesis
    proof (cases again)
      case True
      have lt: "length (stdin_lines w0) < length (stdin_lines w)"
        using ss unfolding Inr by (rule startup_step_consumes)
      have "run_loop w0 = Some (r, w')"
        using less.prems ss Inr True by (subst (asm) run_loop.simps) simp
      then have "flow_ok r w0 w'" using less.hyps [OF lt] by simp
      then show ?thesis using ok0 Inr by (auto simp: flow_ok_def)
    next
      case False
      with less.prems ss Inr ok0 show ?thesis
        by (subst (asm) run_loop.simps) (auto simp: flow_ok_def)
    qed
  qed
qed

lemma run_flow_ok:
  assumes "run w = Some (r, w')"
  shows "flow_ok r w w'"
proof -
  let ?w1 = "show_title w"
  obtain any where h: "has_any_accounts (disk ?w1) = Inr any \<or> (\<exists>e. has_any_accounts (disk ?w1) = Inl e)"
    by (cases "has_any_accounts (disk ?w1)") auto
  show ?thesis
  proof (cases "has_any_accounts (disk ?w1)")
    case (Inl e)
    with assms show ?thesis by (auto simp: run_def Let_def flow_ok_def)
  next
    case (Inr any)
    show ?thesis
    proof (cases any)
      case True
      with assms Inr have "run_loop ?w1 = Some (r, w')" by (simp add: run_def Let_def)
      from run_loop_flow_ok [OF this] show ?thesis by (simp add: flow_ok_def)
    next
      case False
      let ?w2 = "pause ''Nazhmite Enter, chtoby prodolzhit'...''
                   (info ''Pohozhe, eto pervyj zapusk: akkauntov eshchyo net.'' ?w1)"
      have k2: "flow_ok (Inr ()) w ?w2"
        using pause_fields(1) [of "''Nazhmite Enter, chtoby prodolzhit'...''"
            "info ''Pohozhe, eto pervyj zapusk: akkauntov eshchyo net.'' ?w1"]
        by (simp add: flow_ok_def)
      obtain r3 w3 where c: "flow_create_account ?w2 = Some (r3, w3)"
        using assms Inr False
        by (cases "flow_create_account ?w2") (auto simp: run_def Let_def)
      have k3: "flow_ok r3 w w3"
        using k2 flow_create_account_flow_ok [OF c] by (rule flow_ok_step)
      show ?thesis
      proof (cases r3)
        case (Inl e)
        with assms Inr False c k3 show ?thesis by (auto simp: run_def Let_def flow_ok_def)
      next
        case a: (Inr a)
        obtain r4 a4 w4 where fs: "flow_session a w3 = (r4, a4, w4)"
          by (cases "flow_session a w3") auto
        note k4 = flow_session_flow_ok [OF fs]
        from assms Inr False c a fs k3 k4 show ?thesis
          by (auto simp: run_def Let_def flow_ok_def split: sum.splits)
      qed
    qed
  qed
qed

text \<open>
  The account invariant: the balance is not negative, and the record in the storage is
  the account object, field by field.
\<close>

definition account_inv :: "account \<Rightarrow> world \<Rightarrow> bool" where
  "account_inv a w \<longleftrightarrow>
     0 \<le> balance_cents a \<and> get_account (account_number a) (disk w) = Inr (Some a)"

lemma get_account_load_ok:
  assumes "get_account n f = Inr (Some a)"
  shows "\<exists>data. load f = Inr data"
  using assms by (cases "load f") (auto simp: get_account_def)

lemma upsert_after_load:
  assumes "load f = Inr data"
  shows "\<exists>g. upsert_account a f = Inr g \<and> get_account (account_number a) g = Inr (Some a)"
  using upsert_account_succeeds [OF assms, of a] get_account_after_upsert by blast

lemma session_deposit_accepts:
  assumes am: "ask_money_amount ''Skol'ko vnesti?'' w = (Inr d, w1)"
    and d: "0 < d" and l: "load (disk w) = Inr data"
  shows "\<exists>w'. session_deposit a w = (Inr True, a\<lparr> balance_cents := balance_cents a + d \<rparr>, w') \<and>
           get_account (account_number a) (disk w') =
             Inr (Some (a\<lparr> balance_cents := balance_cents a + d \<rparr>))"
proof -
  have "disk w1 = disk w" using ask_money_amount_io_ok [OF am] by (simp add: io_ok_def)
  then obtain g where g: "upsert_account (a\<lparr> balance_cents := balance_cents a + d \<rparr>) (disk w1) = Inr g"
    "get_account (account_number a) g = Inr (Some (a\<lparr> balance_cents := balance_cents a + d \<rparr>))"
    using upsert_after_load [OF l, of "a\<lparr> balance_cents := balance_cents a + d \<rparr>"] by auto
  show ?thesis using am d g by (simp add: session_deposit_def Let_def)
qed

lemma initial_deposit_accepts:
  assumes am: "ask_money_amount ''Vnesite summu na schet (naprimer 100 ili 100.50)'' w = (Inr d, w1)"
    and d: "0 < d" and l: "load (disk w) = Inr data"
  shows "\<exists>w'. initial_deposit a w = (Inr (a\<lparr> balance_cents := balance_cents a + d \<rparr>), w') \<and>
           get_account (account_number a) (disk w') =
             Inr (Some (a\<lparr> balance_cents := balance_cents a + d \<rparr>))"
proof -
  have "disk w1 = disk w" using ask_money_amount_io_ok [OF am] by (simp add: io_ok_def)
  then obtain g where g: "upsert_account (a\<lparr> balance_cents := balance_cents a + d \<rparr>) (disk w1) = Inr g"
    "get_account (account_number a) g = Inr (Some (a\<lparr> balance_cents := balance_cents a + d \<rparr>))"
    using upsert_after_load [OF l, of "a\<lparr> balance_cents := balance_cents a + d \<rparr>"] by auto
  show ?thesis using am d g by (simp add: initial_deposit_def Let_def)
qed

lemma session_withdraw_accepts:
  assumes am: "ask_money_amount ''Skol'ko snyat'?'' w = (Inr x, w1)"
    and x: "0 < x" "x \<le> balance_cents a" and l: "load (disk w) = Inr data"
  shows "\<exists>w'. session_withdraw a w = (Inr True, a\<lparr> balance_cents := balance_cents a - x \<rparr>, w') \<and>
           get_account (account_number a) (disk w') =
             Inr (Some (a\<lparr> balance_cents := balance_cents a - x \<rparr>))"
proof -
  have "disk w1 = disk w" using ask_money_amount_io_ok [OF am] by (simp add: io_ok_def)
  then obtain g where g: "upsert_account (a\<lparr> balance_cents := balance_cents a - x \<rparr>) (disk w1) = Inr g"
    "get_account (account_number a) g = Inr (Some (a\<lparr> balance_cents := balance_cents a - x \<rparr>))"
    using upsert_after_load [OF l, of "a\<lparr> balance_cents := balance_cents a - x \<rparr>"] by auto
  show ?thesis using am x g by (simp add: session_withdraw_def Let_def)
qed

lemma session_withdraw_refuses:
  assumes am: "ask_money_amount ''Skol'ko snyat'?'' w = (Inr x, w1)"
    and x: "balance_cents a < x" and b: "0 \<le> balance_cents a"
  shows "session_withdraw a w =
           (Inr True, a, show_balance (balance_cents a) (error ''Nedostatochno sredstv.'' w1)) \<and>
         disk (show_balance (balance_cents a) (error ''Nedostatochno sredstv.'' w1)) = disk w \<and>
         stdout_text (show_balance (balance_cents a) (error ''Nedostatochno sredstv.'' w1)) =
           stdout_text w1 @ ''[Oshibka] Nedostatochno sredstv.'' @ [NL] @
           ''Tekushchij balans: '' @ format_money (balance_cents a) @ [NL]"
proof -
  have "disk w1 = disk w" using ask_money_amount_io_ok [OF am] by (simp add: io_ok_def)
  then show ?thesis
    using am x b
    by (simp add: session_withdraw_def show_balance_def error_def info_def stdout_def)
qed


lemma account_inv_load_ok:
  assumes "account_inv a w"
  shows "\<exists>data. load (disk w) = Inr data"
  using assms get_account_load_ok [of "account_number a" "disk w" a]
  by (simp add: account_inv_def)

lemma session_deposit_inv:
  assumes inv: "account_inv a w" and st: "session_deposit a w = (r, a', w')"
  shows "account_inv a' w'"
proof -
  obtain r0 w0 where am: "ask_money_amount ''Skol'ko vnesti?'' w = (r0, w0)"
    by (cases "ask_money_amount ''Skol'ko vnesti?'' w")
  have dk: "disk w0 = disk w" using ask_money_amount_io_ok [OF am] by (simp add: io_ok_def)
  show ?thesis
  proof (cases r0)
    case (Inl e)
    with st am inv dk show ?thesis by (auto simp: session_deposit_def account_inv_def)
  next
    case (Inr amount)
    show ?thesis
    proof (cases "amount \<le> 0")
      case True
      with st am Inr inv dk show ?thesis by (auto simp: session_deposit_def account_inv_def)
    next
      case False
      obtain data where l: "load (disk w) = Inr data"
        using account_inv_load_ok [OF inv] by blast
      from session_deposit_accepts [OF am [unfolded Inr] _ l, of a] False st inv
      show ?thesis by (auto simp: account_inv_def)
    qed
  qed
qed

lemma session_withdraw_inv:
  assumes inv: "account_inv a w" and st: "session_withdraw a w = (r, a', w')"
  shows "account_inv a' w'"
proof -
  obtain r0 w0 where am: "ask_money_amount ''Skol'ko snyat'?'' w = (r0, w0)"
    by (cases "ask_money_amount ''Skol'ko snyat'?'' w")
  have dk: "disk w0 = disk w" using ask_money_amount_io_ok [OF am] by (simp add: io_ok_def)
  show ?thesis
  proof (cases r0)
    case (Inl e)
    with st am inv dk show ?thesis by (auto simp: session_withdraw_def account_inv_def)
  next
    case (Inr amount)
    show ?thesis
    proof (cases "0 < amount \<and> amount \<le> balance_cents a")
      case False
      with st am Inr inv dk show ?thesis
        by (auto simp: session_withdraw_def account_inv_def split: if_splits)
    next
      case True
      obtain data where l: "load (disk w) = Inr data"
        using account_inv_load_ok [OF inv] by blast
      from session_withdraw_accepts [OF am [unfolded Inr] conjunct1 [OF True] conjunct2 [OF True] l]
        st inv True
      show ?thesis by (auto simp: account_inv_def)
    qed
  qed
qed

lemma session_step_inv:
  assumes inv: "account_inv a w" and st: "session_step a w = (r, a', w')"
  shows "account_inv a' w'"
proof -
  obtain r0 w0 where mm: "menu_main w = (r0, w0)" by (cases "menu_main w")
  have dk: "disk w0 = disk w" using menu_main_io_ok [OF mm] by (simp add: io_ok_def)
  then have inv0: "account_inv a w0" using inv by (simp add: account_inv_def)
  show ?thesis
  proof (cases r0)
    case (Inl e)
    with st mm inv0 show ?thesis by (auto simp: session_step_def)
  next
    case (Inr choice)
    with st mm inv0 session_deposit_inv [OF inv0, of r a' w']
      session_withdraw_inv [OF inv0, of r a' w']
    show ?thesis
      by (auto simp: session_step_def account_inv_def split: if_splits)
  qed
qed

lemma flow_session_inv:
  "account_inv a w \<Longrightarrow> flow_session a w = (r, a', w') \<Longrightarrow> account_inv a' w'"
proof (induction "length (stdin_lines w)" arbitrary: a w rule: less_induct)
  case less
  obtain r0 a0 w0 where ss: "session_step a w = (r0, a0, w0)"
    by (cases "session_step a w") auto
  have inv0: "account_inv a0 w0" by (rule session_step_inv [OF less.prems(1) ss])
  show ?case
  proof (cases r0)
    case (Inl e)
    with less.prems(2) ss inv0 show ?thesis
      by (subst (asm) flow_session.simps) auto
  next
    case (Inr again)
    show ?thesis
    proof (cases again)
      case True
      have lt: "length (stdin_lines w0) < length (stdin_lines w)"
        using ss unfolding Inr by (rule session_step_consumes)
      have "flow_session a0 w0 = (r, a', w')"
        using less.prems(2) ss Inr True by (subst (asm) flow_session.simps) simp
      from less.hyps [OF lt inv0 this] show ?thesis .
    next
      case False
      with less.prems(2) ss Inr inv0 show ?thesis
        by (subst (asm) flow_session.simps) auto
    qed
  qed
qed

lemma initial_deposit_inv:
  assumes inv: "account_inv a w" and st: "initial_deposit a w = (Inr a', w')"
  shows "account_inv a' w'"
proof -
  obtain r0 w0 where am:
    "ask_money_amount ''Vnesite summu na schet (naprimer 100 ili 100.50)'' w = (r0, w0)"
    by (cases "ask_money_amount ''Vnesite summu na schet (naprimer 100 ili 100.50)'' w")
  have dk: "disk w0 = disk w" using ask_money_amount_io_ok [OF am] by (simp add: io_ok_def)
  show ?thesis
  proof (cases r0)
    case (Inl e)
    with st am show ?thesis by (auto simp: initial_deposit_def)
  next
    case (Inr deposit)
    show ?thesis
    proof (cases "0 < deposit")
      case False
      with st am Inr inv dk show ?thesis by (auto simp: initial_deposit_def account_inv_def)
    next
      case True
      obtain data where l: "load (disk w) = Inr data"
        using account_inv_load_ok [OF inv] by blast
      from initial_deposit_accepts [OF am [unfolded Inr] True l, of a] st inv True
      show ?thesis by (auto simp: account_inv_def)
    qed
  qed
qed

lemma new_account_record_inv:
  assumes "new_account_record w = Some (Inr a, w')"
  shows "account_inv a w'"
  using new_account_record_persisted [OF assms] by (simp add: account_inv_def)

lemma flow_create_account_inv:
  assumes "flow_create_account w = Some (Inr a, w')"
  shows "account_inv a w'"
proof -
  obtain r1 w1 where n: "new_account_record w = Some (r1, w1)"
    using assms by (cases "new_account_record w") (auto simp: flow_create_account_def)
  then obtain a1 where r1: "r1 = Inr a1"
    using assms by (cases r1) (auto simp: flow_create_account_def)
  have "initial_deposit a1 w1 = (Inr a, w')"
    using assms n r1 by (simp add: flow_create_account_def)
  from initial_deposit_inv [OF new_account_record_inv [OF n [unfolded r1]] this]
  show ?thesis .
qed

text \<open>
  The input of the repository's tests (\<open>feed_stdin\<close>): each entry is a line that the user
  typed, ended by Enter.
\<close>

definition feed_stdin :: "string list \<Rightarrow> string list" where
  "feed_stdin ls = map (\<lambda>l. l @ [NL]) ls"

lemma stdin_line:
  assumes "stdin_lines w = lin # rest" and "lin \<noteq> []"
  shows "fst (stdin p w) = Inr (chop_newline lin) \<and> stdin_lines (snd (stdin p w)) = rest \<and>
         eof_seen (snd (stdin p w)) = eof_seen w \<and>
         stdout_text (snd (stdin p w)) =
           stdout_text w @ (if p \<noteq> [] then p @ NL # ''>>>'' else ''>>>'') @ '' ''"
  using assms by (simp add: stdin_def readline_def stdin_result_def stdout_def Let_def)

lemma stdin_eof:
  assumes "stdin_lines w = []"
  shows "fst (stdin p w) = Inl EOFError \<and> eof_seen (snd (stdin p w))"
  using assms by (simp add: stdin_def readline_def stdin_result_def Let_def)

lemma menu_main_line:
  assumes "stdin_lines w = lin # rest" and "lin \<noteq> []"
  shows "menu_main w = (Inr (strip (chop_newline lin)), snd (menu_main w)) \<and>
         stdin_lines (snd (menu_main w)) = rest"
proof -
  let ?w5 = "stdout [''0) Vyhod''] '' '' [NL]
        (stdout [''3) Pokazat' balans''] '' '' [NL]
          (stdout [''2) Snyat' den'gi so scheta''] '' '' [NL]
            (stdout [''1) Vnesti den'gi na schet''] '' '' [NL] (stdout [[]] '' '' [NL] w))))"
  have "stdin_lines ?w5 = lin # rest" using assms(1) by simp
  from stdin_line [OF this assms(2), of "''Vyberite dejstvie''"]
  show ?thesis
    by (cases "stdin ''Vyberite dejstvie'' ?w5") (simp add: menu_main_def Let_def)
qed

lemma ask_money_amount_line:
  assumes "stdin_lines w = lin # rest" and "lin \<noteq> []"
    and "Decimal (replace_commas (strip (chop_newline lin))) = Some d"
    and "\<not> is_nan d" "\<not> is_infinite d" "\<not> below_zero d"
  shows "fst (ask_money_amount p w) = to_cents d \<and> stdin_lines (snd (ask_money_amount p w)) = rest"
  using stdin_line [OF assms(1,2), of p] assms(3-)
  by (cases "stdin p w")
     (auto simp: ask_money_amount.simps [of p w] Let_def split: sum.splits)

lemmas dec_eval = times_100_def fix_context_def quantize_1_def int_of_decimal_def to_cents_def
  ndigits_def str_nat.simps prec_def Etop_def Etiny_def Emax_def Emin_def round_half_even_def
  Let_def is_nan_def is_infinite_def below_zero_def

text \<open>
  Claim C1.  When the session's deposit operation (choice 1 of the menu) or the initial
  deposit of the account creation accepts an amount \<open>d > 0\<close>, and the storage file can be
  loaded, the operation goes through, the balance of the account object is the previous
  balance plus \<open>d\<close>, and \<open>get_account\<close> on the storage file as the operation leaves it
  returns a record equal to the account object in every field.
\<close>

theorem deposit_adds_and_persists:
  "(menu_main w = (Inr ''1'', w1) \<and> ask_money_amount ''Skol'ko vnesti?'' w1 = (Inr d, w2) \<and>
    0 < d \<and> load (disk w) = Inr data \<longrightarrow>
      (\<exists>w'. session_step a w = (Inr True, a\<lparr> balance_cents := balance_cents a + d \<rparr>, w') \<and>
            get_account (account_number a) (disk w') =
              Inr (Some (a\<lparr> balance_cents := balance_cents a + d \<rparr>)))) \<and>
   (ask_money_amount ''Vnesite summu na schet (naprimer 100 ili 100.50)'' v = (Inr d, v1) \<and>
    0 < d \<and> load (disk v) = Inr data \<longrightarrow>
      (\<exists>v'. initial_deposit a v = (Inr (a\<lparr> balance_cents := balance_cents a + d \<rparr>), v') \<and>
            get_account (account_number a) (disk v') =
              Inr (Some (a\<lparr> balance_cents := balance_cents a + d \<rparr>))))"
proof (intro conjI impI)
  assume h: "menu_main w = (Inr ''1'', w1) \<and>
    ask_money_amount ''Skol'ko vnesti?'' w1 = (Inr d, w2) \<and> 0 < d \<and> load (disk w) = Inr data"
  then have "disk w1 = disk w" using menu_main_io_ok [of w "Inr ''1''" w1] by (simp add: io_ok_def)
  with h have "load (disk w1) = Inr data" by simp
  from session_deposit_accepts [OF _ _ this, of d w2 a] h
  show "\<exists>w'. session_step a w = (Inr True, a\<lparr> balance_cents := balance_cents a + d \<rparr>, w') \<and>
            get_account (account_number a) (disk w') =
              Inr (Some (a\<lparr> balance_cents := balance_cents a + d \<rparr>))"
    by (simp add: session_step_def)
next
  assume h: "ask_money_amount ''Vnesite summu na schet (naprimer 100 ili 100.50)'' v = (Inr d, v1) \<and>
    0 < d \<and> load (disk v) = Inr data"
  then show "\<exists>v'. initial_deposit a v = (Inr (a\<lparr> balance_cents := balance_cents a + d \<rparr>), v') \<and>
            get_account (account_number a) (disk v') =
              Inr (Some (a\<lparr> balance_cents := balance_cents a + d \<rparr>))"
    using initial_deposit_accepts [of v d v1 data a] by simp
qed

definition deposit_world :: world where
  "deposit_world = sample_world\<lparr> stdin_lines := feed_stdin [''1'', ''5.00''] \<rparr>"

definition initial_world :: world where
  "initial_world = sample_world\<lparr> stdin_lines := feed_stdin [''10.00''] \<rparr>"

lemma strip_choice_1: "strip (chop_newline (''1'' @ [NL])) = ''1''"
  by code_simp

lemma Decimal_5_00: "Decimal (replace_commas (strip (chop_newline (''5.00'' @ [NL])))) = Some (Finite False 500 (- 2))"
  by code_simp

lemma Decimal_10_00: "Decimal (replace_commas (strip (chop_newline (''10.00'' @ [NL])))) = Some (Finite False 1000 (- 2))"
  by code_simp

lemma to_cents_5_00: "to_cents (Finite False 500 (- 2)) = Inr 500"
  by (simp add: dec_eval)

lemma to_cents_10_00: "to_cents (Finite False 1000 (- 2)) = Inr 1000"
  by (simp add: dec_eval)

theorem deposit_adds_and_persists_witness:
  "menu_main deposit_world = (Inr ''1'', snd (menu_main deposit_world)) \<and>
   ask_money_amount ''Skol'ko vnesti?'' (snd (menu_main deposit_world)) =
     (Inr 500, snd (ask_money_amount ''Skol'ko vnesti?'' (snd (menu_main deposit_world)))) \<and>
   load (disk deposit_world) = Inr empty_document \<and>
   (\<exists>w'. session_step sample_account deposit_world =
            (Inr True, sample_account\<lparr> balance_cents := 600 \<rparr>, w') \<and>
         get_account ''0000000001'' (disk w') =
           Inr (Some (sample_account\<lparr> balance_cents := 600 \<rparr>))) \<and>
   ask_money_amount ''Vnesite summu na schet (naprimer 100 ili 100.50)'' initial_world =
     (Inr 1000,
      snd (ask_money_amount ''Vnesite summu na schet (naprimer 100 ili 100.50)'' initial_world)) \<and>
   (\<exists>v'. initial_deposit sample_account initial_world =
            (Inr (sample_account\<lparr> balance_cents := 1100 \<rparr>), v') \<and>
         get_account ''0000000001'' (disk v') =
           Inr (Some (sample_account\<lparr> balance_cents := 1100 \<rparr>)))"
proof -
  let ?w1 = "snd (menu_main deposit_world)"
  let ?p = "''Skol'ko vnesti?''"
  let ?q = "''Vnesite summu na schet (naprimer 100 ili 100.50)''"
  have l0: "stdin_lines deposit_world = (''1'' @ [NL]) # [''5.00'' @ [NL]]"
    by (simp add: deposit_world_def feed_stdin_def)
  have m: "menu_main deposit_world = (Inr ''1'', ?w1)" and l1: "stdin_lines ?w1 = [''5.00'' @ [NL]]"
    using menu_main_line [OF l0] strip_choice_1 by simp_all
  have am: "ask_money_amount ?p ?w1 = (Inr 500, snd (ask_money_amount ?p ?w1))"
    using ask_money_amount_line [OF l1 _ Decimal_5_00, of ?p] to_cents_5_00
    by (simp add: dec_eval prod_eq_iff)
  have ld: "load (disk deposit_world) = Inr empty_document"
    by (simp add: deposit_world_def sample_world_def load_def)
  have li: "stdin_lines initial_world = [''10.00'' @ [NL]]"
    by (simp add: initial_world_def feed_stdin_def)
  have ai: "ask_money_amount ?q initial_world = (Inr 1000, snd (ask_money_amount ?q initial_world))"
    using ask_money_amount_line [OF li _ Decimal_10_00, of ?q] to_cents_10_00
    by (simp add: dec_eval prod_eq_iff)
  have lv: "load (disk initial_world) = Inr empty_document"
    by (simp add: initial_world_def sample_world_def load_def)
  have b: "balance_cents sample_account = 100" "account_number sample_account = ''0000000001''"
    by (simp_all add: sample_account_def)
  show ?thesis
    using m am ld ai lv b
      deposit_adds_and_persists [of deposit_world ?w1 500 "snd (ask_money_amount ?p ?w1)"
        empty_document sample_account initial_world]
      deposit_adds_and_persists [of initial_world ?w1 1000 "snd (ask_money_amount ?p ?w1)"
        empty_document sample_account initial_world "snd (ask_money_amount ?q initial_world)"]
    by simp
qed


text \<open>
  Claim C2.  In the session's withdraw operation (choice 2 of the menu), for an accepted
  amount \<open>x\<close>: when \<open>0 < x \<le> balance\<close> and the storage file can be loaded, the balance of
  the account object becomes the balance minus \<open>x\<close> and the storage holds the updated
  record; when \<open>x > balance\<close> (the balance being non-negative, as the account invariant
  says) the operation prints the message of insufficient funds and the balance, and
  leaves the account object and the storage file as they were.
\<close>

theorem withdraw_checks_funds:
  "(menu_main w = (Inr ''2'', w1) \<and> ask_money_amount ''Skol'ko snyat'?'' w1 = (Inr x, w2) \<and>
    load (disk w) = Inr data \<and> 0 < x \<and> x \<le> balance_cents a \<longrightarrow>
      (\<exists>w'. session_step a w = (Inr True, a\<lparr> balance_cents := balance_cents a - x \<rparr>, w') \<and>
            get_account (account_number a) (disk w') =
              Inr (Some (a\<lparr> balance_cents := balance_cents a - x \<rparr>)))) \<and>
   (menu_main w = (Inr ''2'', w1) \<and> ask_money_amount ''Skol'ko snyat'?'' w1 = (Inr x, w2) \<and>
    0 \<le> balance_cents a \<and> balance_cents a < x \<longrightarrow>
      (\<exists>w'. session_step a w = (Inr True, a, w') \<and> disk w' = disk w \<and>
            stdout_text w' =
              stdout_text w2 @ ''[Oshibka] Nedostatochno sredstv.'' @ [NL] @
              ''Tekushchij balans: '' @ format_money (balance_cents a) @ [NL]))"
proof (intro conjI impI)
  assume h: "menu_main w = (Inr ''2'', w1) \<and> ask_money_amount ''Skol'ko snyat'?'' w1 = (Inr x, w2) \<and>
    load (disk w) = Inr data \<and> 0 < x \<and> x \<le> balance_cents a"
  then have "disk w1 = disk w" using menu_main_io_ok [of w "Inr ''2''" w1] by (simp add: io_ok_def)
  with h have "load (disk w1) = Inr data" by simp
  from session_withdraw_accepts [OF _ _ _ this, of x w2 a] h
  show "\<exists>w'. session_step a w = (Inr True, a\<lparr> balance_cents := balance_cents a - x \<rparr>, w') \<and>
            get_account (account_number a) (disk w') =
              Inr (Some (a\<lparr> balance_cents := balance_cents a - x \<rparr>))"
    by (simp add: session_step_def)
next
  assume h: "menu_main w = (Inr ''2'', w1) \<and> ask_money_amount ''Skol'ko snyat'?'' w1 = (Inr x, w2) \<and>
    0 \<le> balance_cents a \<and> balance_cents a < x"
  then have "disk w1 = disk w" using menu_main_io_ok [of w "Inr ''2''" w1] by (simp add: io_ok_def)
  with session_withdraw_refuses [of w1 x w2 a] h
  show "\<exists>w'. session_step a w = (Inr True, a, w') \<and> disk w' = disk w \<and>
            stdout_text w' =
              stdout_text w2 @ ''[Oshibka] Nedostatochno sredstv.'' @ [NL] @
              ''Tekushchij balans: '' @ format_money (balance_cents a) @ [NL]"
    by (simp add: session_step_def)
qed

definition withdraw_world :: "string \<Rightarrow> world" where
  "withdraw_world amount = sample_world\<lparr> stdin_lines := feed_stdin [''2'', amount] \<rparr>"

lemma strip_choice_2: "strip (chop_newline (''2'' @ [NL])) = ''2''"
  by code_simp

lemma Decimal_1_00: "Decimal (replace_commas (strip (chop_newline (''1.00'' @ [NL])))) = Some (Finite False 100 (- 2))"
  by code_simp

lemma Decimal_2_00: "Decimal (replace_commas (strip (chop_newline (''2.00'' @ [NL])))) = Some (Finite False 200 (- 2))"
  by code_simp

lemma to_cents_1_00: "to_cents (Finite False 100 (- 2)) = Inr 100"
  by (simp add: dec_eval)

lemma to_cents_2_00: "to_cents (Finite False 200 (- 2)) = Inr 200"
  by (simp add: dec_eval)

theorem withdraw_checks_funds_witness:
  "menu_main (withdraw_world ''1.00'') = (Inr ''2'', snd (menu_main (withdraw_world ''1.00''))) \<and>
   ask_money_amount ''Skol'ko snyat'?'' (snd (menu_main (withdraw_world ''1.00''))) =
     (Inr 100, snd (ask_money_amount ''Skol'ko snyat'?'' (snd (menu_main (withdraw_world ''1.00''))))) \<and>
   load (disk (withdraw_world ''1.00'')) = Inr empty_document \<and>
   balance_cents sample_account = 100 \<and>
   (\<exists>w'. session_step sample_account (withdraw_world ''1.00'') =
            (Inr True, sample_account\<lparr> balance_cents := 0 \<rparr>, w') \<and>
         get_account ''0000000001'' (disk w') =
           Inr (Some (sample_account\<lparr> balance_cents := 0 \<rparr>))) \<and>
   menu_main (withdraw_world ''2.00'') = (Inr ''2'', snd (menu_main (withdraw_world ''2.00''))) \<and>
   ask_money_amount ''Skol'ko snyat'?'' (snd (menu_main (withdraw_world ''2.00''))) =
     (Inr 200, snd (ask_money_amount ''Skol'ko snyat'?'' (snd (menu_main (withdraw_world ''2.00''))))) \<and>
   (\<exists>w'. session_step sample_account (withdraw_world ''2.00'') = (Inr True, sample_account, w') \<and>
         disk w' = disk (withdraw_world ''2.00'') \<and>
         stdout_text w' =
           stdout_text (snd (ask_money_amount ''Skol'ko snyat'?''
                               (snd (menu_main (withdraw_world ''2.00''))))) @
           ''[Oshibka] Nedostatochno sredstv.'' @ [NL] @ ''Tekushchij balans: 1.00'' @ [NL])"
proof -
  let ?p = "''Skol'ko snyat'?''"
  let ?a = "withdraw_world ''1.00''"
  let ?b = "withdraw_world ''2.00''"
  let ?a1 = "snd (menu_main ?a)"
  let ?b1 = "snd (menu_main ?b)"
  have la: "stdin_lines ?a = (''2'' @ [NL]) # [''1.00'' @ [NL]]"
    and lb: "stdin_lines ?b = (''2'' @ [NL]) # [''2.00'' @ [NL]]"
    by (simp_all add: withdraw_world_def feed_stdin_def)
  have ma: "menu_main ?a = (Inr ''2'', ?a1)" and la1: "stdin_lines ?a1 = [''1.00'' @ [NL]]"
    using menu_main_line [OF la] strip_choice_2 by simp_all
  have mb: "menu_main ?b = (Inr ''2'', ?b1)" and lb1: "stdin_lines ?b1 = [''2.00'' @ [NL]]"
    using menu_main_line [OF lb] strip_choice_2 by simp_all
  have aa: "ask_money_amount ?p ?a1 = (Inr 100, snd (ask_money_amount ?p ?a1))"
    using ask_money_amount_line [OF la1 _ Decimal_1_00, of ?p] to_cents_1_00
    by (simp add: dec_eval prod_eq_iff)
  have ab: "ask_money_amount ?p ?b1 = (Inr 200, snd (ask_money_amount ?p ?b1))"
    using ask_money_amount_line [OF lb1 _ Decimal_2_00, of ?p] to_cents_2_00
    by (simp add: dec_eval prod_eq_iff)
  have ld: "load (disk ?a) = Inr empty_document"
    by (simp add: withdraw_world_def sample_world_def load_def)
  have b: "balance_cents sample_account = 100" "account_number sample_account = ''0000000001''"
    by (simp_all add: sample_account_def)
  have f: "format_money 100 = ''1.00''"
    by (simp add: format_money_def str_int_def str_nat.simps digit_char_def zfill_def)
  show ?thesis
    using ma mb aa ab ld b f
      withdraw_checks_funds [of ?a ?a1 100 "snd (ask_money_amount ?p ?a1)" empty_document
        sample_account]
      withdraw_checks_funds [of ?b ?b1 200 "snd (ask_money_amount ?p ?b1)" empty_document
        sample_account]
    by simp
qed


section \<open>Lesson 1: properties of the amount prompt\<close>

lemma ask_money_amount_again:
  assumes "stdin_lines w = lin # rest" and "lin \<noteq> []"
    and "Decimal (replace_commas (strip (chop_newline lin))) = None"
  shows "ask_money_amount p w =
           ask_money_amount p
             (error ''Vvedite korrektnoe chislo (naprimer: 100 ili 100.50).'' (snd (stdin p w)))"
  using stdin_line [OF assms(1,2), of p] assms(3)
  by (cases "stdin p w") (auto simp: ask_money_amount.simps [of p w] Let_def)

lemma ask_money_amount_negative:
  assumes "stdin_lines w = lin # rest" and "lin \<noteq> []"
    and "Decimal (replace_commas (strip (chop_newline lin))) = Some d"
    and "\<not> is_nan d" "\<not> is_infinite d" "below_zero d"
  shows "ask_money_amount p w =
           ask_money_amount p (error ''Summa ne mozhet byt' otricatel'noj.'' (snd (stdin p w)))"
  using stdin_line [OF assms(1,2), of p] assms(3-)
  by (cases "stdin p w") (auto simp: ask_money_amount.simps [of p w] Let_def)

lemma ask_money_amount_not_finite:
  assumes "stdin_lines w = lin # rest" and "lin \<noteq> []"
    and "Decimal (replace_commas (strip (chop_newline lin))) = Some d"
    and "is_nan d \<or> is_infinite d"
  shows "ask_money_amount p w =
           ask_money_amount p (error ''Nekorrektnoe znachenie summy.'' (snd (stdin p w)))"
  using stdin_line [OF assms(1,2), of p] assms(3-)
  by (cases "stdin p w") (auto simp: ask_money_amount.simps [of p w] Let_def)

definition amount_world :: "string list \<Rightarrow> world" where
  "amount_world ls = sample_world\<lparr> stdin_lines := feed_stdin ls \<rparr>"

lemma Decimal_minus_5:
  "Decimal (replace_commas (strip (chop_newline (''-5'' @ [NL])))) = Some (Finite True 5 0)"
  by code_simp

lemma Decimal_abc: "Decimal (replace_commas (strip (chop_newline (''abc'' @ [NL])))) = None"
  by code_simp

lemma Decimal_100_comma_50:
  "Decimal (replace_commas (strip (chop_newline (''100,50'' @ [NL])))) = Some (Finite False 10050 (- 2))"
  by code_simp

lemma to_cents_100_50: "to_cents (Finite False 10050 (- 2)) = Inr 10050"
  by (simp add: dec_eval)

text \<open>
  The scenario of the specification: \<open>-5\<close> and \<open>abc\<close> are refused, each with its message, and
  the prompt is repeated; \<open>100,50\<close> is then accepted as 10050 cents.
\<close>

lemma ask_money_amount_scenario:
  "fst (ask_money_amount p (amount_world [''-5'', ''abc'', ''100,50''])) = Inr 10050"
proof -
  let ?w = "amount_world [''-5'', ''abc'', ''100,50'']"
  let ?w1 = "error ''Summa ne mozhet byt' otricatel'noj.'' (snd (stdin p ?w))"
  let ?w2 = "error ''Vvedite korrektnoe chislo (naprimer: 100 ili 100.50).'' (snd (stdin p ?w1))"
  have l0: "stdin_lines ?w = (''-5'' @ [NL]) # [''abc'' @ [NL], ''100,50'' @ [NL]]"
    by (simp add: amount_world_def feed_stdin_def)
  have l1: "stdin_lines ?w1 = (''abc'' @ [NL]) # [''100,50'' @ [NL]]"
    using stdin_line [OF l0, of p] by (simp add: error_def)
  have l2: "stdin_lines ?w2 = (''100,50'' @ [NL]) # []"
    using stdin_line [OF l1, of p] by (simp add: error_def)
  have "ask_money_amount p ?w = ask_money_amount p ?w1"
    by (rule ask_money_amount_negative [OF l0 _ Decimal_minus_5])
       (simp_all add: is_nan_def is_infinite_def below_zero_def)
  also have "\<dots> = ask_money_amount p ?w2"
    by (rule ask_money_amount_again [OF l1 _ Decimal_abc]) simp
  finally show ?thesis
    using ask_money_amount_line [OF l2 _ Decimal_100_comma_50, of p] to_cents_100_50
    by (simp add: is_nan_def is_infinite_def below_zero_def)
qed

lemma Decimal_1e26:
  "Decimal (replace_commas (strip (chop_newline (''1e26'' @ [NL])))) = Some (Finite False 1 26)"
  by code_simp

lemma to_cents_1e26: "to_cents (Finite False 1 26) = Inl InvalidOperation"
  by (simp add: dec_eval)

text \<open>
  Claim C7.  The amount \<open>1e26\<close> is a number, finite and not negative, so the prompt accepts
  it; the conversion to cents, \<open>(d * 100).quantize(Decimal("1"))\<close>, then needs 29 digits,
  one more than the precision of the context, and raises \<open>InvalidOperation\<close> outside the
  \<open>try\<close> block: the prompt neither asks again nor returns a number of cents.
\<close>

theorem ask_money_amount_1e26_raises:
  "fst (ask_money_amount ''Skol'ko vnesti?'' (amount_world [''1e26''])) = Inl InvalidOperation"
proof -
  have l0: "stdin_lines (amount_world [''1e26'']) = (''1e26'' @ [NL]) # []"
    by (simp add: amount_world_def feed_stdin_def)
  show ?thesis
    using ask_money_amount_line [OF l0 _ Decimal_1e26, of "''Skol'ko vnesti?''"] to_cents_1e26
    by (simp add: is_nan_def is_infinite_def below_zero_def)
qed

text \<open>
  The product \<open>d * 100\<close> is itself rounded to the 28 digits of the context before
  \<open>quantize\<close> rounds it again: the amount 0.0149999999999999999999999999999, just under
  one and a half cents, comes out as 2.
\<close>

lemma to_cents_long: "to_cents (Finite False 149999999999999999999999999999 (- 31)) = Inr 2"
  by (simp add: dec_eval)


section \<open>Lesson 1: the end of the input\<close>

lemma chop_newline_crlf: "chop_newline (body @ [CR, NL]) = body"
proof -
  have "butlast (body @ [CR, NL]) = body @ [CR]"
    by (simp add: butlast_append)
  then show ?thesis by (simp add: chop_newline_def)
qed

lemma chop_newline_lf:
  assumes "\<not> suffix [CR] body"
  shows "chop_newline (body @ [NL]) = body"
proof -
  have "body = [] \<or> last body \<noteq> CR"
  proof (cases body rule: rev_cases)
    case (snoc ys y)
    with assms show ?thesis by (auto simp: suffix_def)
  qed simp
  then show ?thesis by (auto simp: chop_newline_def)
qed

lemma chop_newline_none:
  assumes "\<not> suffix [NL] line"
  shows "chop_newline line = line"
proof -
  have "line = [] \<or> last line \<noteq> NL"
  proof (cases line rule: rev_cases)
    case (snoc ys y)
    with assms show ?thesis by (auto simp: suffix_def)
  qed simp
  then show ?thesis by (auto simp: chop_newline_def)
qed

lemma stdin_reads: "fst (stdin prompt w) = stdin_result (fst (readline w))"
  by (auto simp: stdin_def readline_def stdout_def Let_def split: list.splits sum.splits)

lemma stdin_eof_seen:
  "eof_seen (snd (stdin prompt w)) \<longleftrightarrow> eof_seen w \<or> fst (stdin prompt w) = Inl EOFError"
  by (auto simp: stdin_def readline_def stdout_def stdin_result_def Let_def
      split: list.splits sum.splits if_splits)

text \<open>
  Claim C9.  \<open>stdin\<close> hands the result of \<open>readline\<close> to \<open>stdin_result\<close>, which raises
  EOFError exactly when the line is the empty string.  A line that is not empty raises
  nothing and is returned without its final newline and without one carriage return just
  before that newline: \<open>body\\r\\n\<close> and \<open>body\\n\<close> give \<open>body\<close>, and a line without a final
  newline is returned as it is.  Nothing in the ATM catches the EOFError: \<open>eof_seen\<close>
  records that \<open>stdin\<close> has raised it, and a run of the ATM during which that happens ends
  with EOFError.
\<close>

theorem stdin_eof_and_newline:
  "fst (stdin prompt w) = stdin_result (fst (readline w)) \<and>
   (stdin_result line = Inl EOFError \<longleftrightarrow> line = []) \<and>
   (line \<noteq> [] \<longrightarrow> stdin_result line = Inr (chop_newline line)) \<and>
   chop_newline (body @ [CR, NL]) = body \<and>
   (\<not> suffix [CR] body \<longrightarrow> chop_newline (body @ [NL]) = body) \<and>
   (\<not> suffix [NL] line \<longrightarrow> chop_newline line = line) \<and>
   (eof_seen (snd (stdin prompt w)) \<longleftrightarrow> eof_seen w \<or> fst (stdin prompt w) = Inl EOFError) \<and>
   (run v = Some (r, v') \<and> \<not> eof_seen v \<and> eof_seen v' \<longrightarrow> r = Inl EOFError)"
proof (intro conjI impI)
  show "fst (stdin prompt w) = stdin_result (fst (readline w))" by (rule stdin_reads)
  show "(stdin_result line = Inl EOFError) = (line = [])" by (simp add: stdin_result_def)
  show "stdin_result line = Inr (chop_newline line)" if "line \<noteq> []"
    using that by (simp add: stdin_result_def)
  show "chop_newline (body @ [CR, NL]) = body" by (rule chop_newline_crlf)
  show "chop_newline (body @ [NL]) = body" if "\<not> suffix [CR] body"
    using that by (rule chop_newline_lf)
  show "chop_newline line = line" if "\<not> suffix [NL] line"
    using that by (rule chop_newline_none)
  show "eof_seen (snd (stdin prompt w)) = (eof_seen w \<or> fst (stdin prompt w) = Inl EOFError)"
    by (rule stdin_eof_seen)
  show "r = Inl EOFError" if "run v = Some (r, v') \<and> \<not> eof_seen v \<and> eof_seen v'"
    using that run_flow_ok [of v r v'] by (auto simp: flow_ok_def)
qed


lemma ask_text_eof:
  assumes "stdin_lines w = []"
  shows "ask_text p m w = (Inl EOFError, snd (stdin p w))"
  using stdin_eof [OF assms, of p]
  by (cases "stdin p w") (simp add: ask_text.simps [of p m w])

lemma pause_line: "stdin_lines w = lin # rest \<Longrightarrow> stdin_lines (pause m w) = rest"
  by (simp add: pause_def readline_def)

text \<open>
  A first run of the ATM (no storage file) where the user presses Enter at the pause and
  the input then ends.
\<close>

definition eof_world :: world where
  "eof_world = sample_world\<lparr> stdin_lines := feed_stdin [[]] \<rparr>"

lemma run_eof_world:
  "\<exists>v'. run eof_world = Some (Inl EOFError, v') \<and> eof_seen v'"
proof -
  let ?w1 = "show_title eof_world"
  let ?w2 = "pause ''Nazhmite Enter, chtoby prodolzhit'...''
               (info ''Pohozhe, eto pervyj zapusk: akkauntov eshchyo net.'' ?w1)"
  let ?w3 = "info ''=== Sozdanie novogo scheta ==='' (info [] ?w2)"
  let ?w4 = "snd (stdin ''Vvedite vashe imya'' ?w3)"
  have h: "has_any_accounts (disk ?w1) = Inr False"
    by (simp add: eof_world_def sample_world_def has_any_accounts_def load_def
        empty_document_def)
  have "stdin_lines ?w2 = []"
    by (rule pause_line [where lin = "[NL]"]) (simp add: eof_world_def feed_stdin_def)
  then have l3: "stdin_lines ?w3 = []" by simp
  have n: "new_account_record ?w2 = Some (Inl EOFError, ?w4)"
    using ask_text_eof [OF l3, of "''Vvedite vashe imya'' " 1]
    by (simp add: new_account_record_def)
  have "run eof_world = Some (Inl EOFError, ?w4)"
    using h n by (simp add: run_def flow_create_account_def)
  moreover have "eof_seen ?w4" using stdin_eof [OF l3] by simp
  ultimately show ?thesis by blast
qed

text \<open>
  Claim C9 on the lines \<open>1\\n\<close>, \<open>ab\\r\\n\<close>, \<open>ab\\n\<close> and \<open>ab\<close>, and on that run.
\<close>

theorem stdin_eof_and_newline_witness:
  "''1'' @ [NL] \<noteq> [] \<and> stdin_result (''1'' @ [NL]) = Inr ''1'' \<and>
   chop_newline (''ab'' @ [CR, NL]) = ''ab'' \<and>
   \<not> suffix [CR] ''ab'' \<and> chop_newline (''ab'' @ [NL]) = ''ab'' \<and>
   \<not> suffix [NL] ''ab'' \<and> chop_newline ''ab'' = ''ab'' \<and>
   \<not> eof_seen eof_world \<and>
   (\<exists>v'. run eof_world = Some (Inl EOFError, v') \<and> eof_seen v')"
proof -
  obtain v' where v: "run eof_world = Some (Inl EOFError, v')" "eof_seen v'"
    using run_eof_world by blast
  have e: "\<not> eof_seen eof_world" by (simp add: eof_world_def sample_world_def)
  have s1: "\<not> suffix [CR] ''ab''" and s2: "\<not> suffix [NL] ''ab''"
    by (simp_all add: suffix_def)
  have c: "chop_newline (''1'' @ [NL]) = ''1''" by (simp add: chop_newline_def)
  show ?thesis
    using v e s1 s2 c
      stdin_eof_and_newline [of _ _ "''1'' @ [NL]" "''ab''" eof_world "Inl EOFError" v']
      stdin_eof_and_newline [of _ _ "''ab''" "''ab''" eof_world "Inl EOFError" v']
    by auto
qed


section \<open>Lesson 1: the balance is never negative\<close>

lemma ask_text_line:
  assumes "stdin_lines w = lin # rest" and "lin \<noteq> []"
    and "m \<le> int (length (strip (chop_newline lin)))"
  shows "\<exists>w1. ask_text p m w = (Inr (strip (chop_newline lin)), w1) \<and> stdin_lines w1 = rest \<and>
              disk w1 = disk w \<and> entropy w1 = entropy w \<and> entropy_pos w1 = entropy_pos w"
proof -
  have "ask_text p m w = (Inr (strip (chop_newline lin)), snd (stdin p w))"
    using stdin_line [OF assms(1,2), of p] assms(3)
    by (cases "stdin p w") (simp add: ask_text.simps [of p m w])
  then show ?thesis using stdin_line [OF assms(1,2), of p] by simp
qed

lemma ask_digits_line:
  assumes "stdin_lines w = lin # rest" and "lin \<noteq> []"
    and "isdigit (strip (chop_newline lin))"
    and "mn \<le> int (length (strip (chop_newline lin)))"
    and "int (length (strip (chop_newline lin))) \<le> mx"
  shows "\<exists>w1. ask_digits p mn (Some mx) w = (Inr (strip (chop_newline lin)), w1) \<and>
              stdin_lines w1 = rest \<and>
              disk w1 = disk w \<and> entropy w1 = entropy w \<and> entropy_pos w1 = entropy_pos w"
proof -
  have "ask_digits p mn (Some mx) w = (Inr (strip (chop_newline lin)), snd (stdin p w))"
    using stdin_line [OF assms(1,2), of p] assms(3-)
    by (cases "stdin p w") (simp add: ask_digits.simps [of p mn "Some mx" w])
  then show ?thesis using stdin_line [OF assms(1,2), of p] by simp
qed

text \<open>
  The input of the repository's test of the creation flow, after the pause: name, surname,
  ID, the PIN twice and the initial deposit.  There is no storage file and every random
  draw is 5.
\<close>

definition create_world :: world where
  "create_world = sample_world\<lparr> stdin_lines :=
     feed_stdin [''Kirill'', ''Momotov'', ''ID123'', ''1234'', ''1234'', ''10.00''] \<rparr>"

lemma strip_Kirill: "strip (chop_newline (''Kirill'' @ [NL])) = ''Kirill''"
  by code_simp

lemma strip_Momotov: "strip (chop_newline (''Momotov'' @ [NL])) = ''Momotov''"
  by code_simp

lemma strip_ID123: "strip (chop_newline (''ID123'' @ [NL])) = ''ID123''"
  by code_simp

lemma strip_1234: "strip (chop_newline (''1234'' @ [NL])) = ''1234''"
  by code_simp

lemma isdigit_1234: "isdigit ''1234''"
  by code_simp

lemma new_account_record_create_world:
  "\<exists>a w'. new_account_record create_world = Some (Inr a, w') \<and>
          account_number a = ''0000000005'' \<and> name a = ''Kirill'' \<and>
          stdin_lines w' = [''10.00'' @ [NL]]"
proof -
  let ?w1 = "info ''=== Sozdanie novogo scheta ==='' (info [] create_world)"
  have l1: "stdin_lines ?w1 = (''Kirill'' @ [NL]) #
      [''Momotov'' @ [NL], ''ID123'' @ [NL], ''1234'' @ [NL], ''1234'' @ [NL], ''10.00'' @ [NL]]"
    by (simp add: create_world_def feed_stdin_def)
  have f1: "disk ?w1 = NoFile" "entropy ?w1 = (\<lambda>n. 5)" "entropy_pos ?w1 = 0"
    by (simp_all add: create_world_def sample_world_def)
  obtain w2 where a2: "ask_text ''Vvedite vashe imya'' 1 ?w1 = (Inr ''Kirill'', w2)"
    and l2: "stdin_lines w2 = (''Momotov'' @ [NL]) #
      [''ID123'' @ [NL], ''1234'' @ [NL], ''1234'' @ [NL], ''10.00'' @ [NL]]"
    and f2: "disk w2 = NoFile" "entropy w2 = (\<lambda>n. 5)" "entropy_pos w2 = 0"
    using ask_text_line [OF l1, of 1 "''Vvedite vashe imya''"] f1 strip_Kirill
    by auto
  obtain w3 where a3: "ask_text ''Vvedite vashu familiyu'' 1 w2 = (Inr ''Momotov'', w3)"
    and l3: "stdin_lines w3 = (''ID123'' @ [NL]) #
      [''1234'' @ [NL], ''1234'' @ [NL], ''10.00'' @ [NL]]"
    and f3: "disk w3 = NoFile" "entropy w3 = (\<lambda>n. 5)" "entropy_pos w3 = 0"
    using ask_text_line [OF l2, of 1 "''Vvedite vashu familiyu''"] f2 strip_Momotov
    by auto
  obtain w4 where a4: "ask_text ''Vvedite vash ID (mozhno cifry/bukvy)'' 1 w3 = (Inr ''ID123'', w4)"
    and l4: "stdin_lines w4 = (''1234'' @ [NL]) # [''1234'' @ [NL], ''10.00'' @ [NL]]"
    and f4: "disk w4 = NoFile" "entropy w4 = (\<lambda>n. 5)" "entropy_pos w4 = 0"
    using ask_text_line [OF l3, of 1 "''Vvedite vash ID (mozhno cifry/bukvy)''"] f3 strip_ID123
    by auto
  let ?w5 = "w4\<lparr> entropy_pos := entropy_pos w4 + 0 + 1 \<rparr>"
  have z: "zfill 10 ''5'' = ''0000000005''"
    by code_simp
  have c: "candidate 10 w4 0 = ''0000000005''"
    by (simp add: candidate_def f4 str_nat.simps digit_char_def z)
  have e: "account_exists ''0000000005'' (disk w4) = Inr False"
    by (simp add: account_exists_def load_def empty_document_def f4)
  have g: "generate_unique_account_number 10 w4 = Some (Inr ''0000000005'', ?w5)"
    using generate_returns [of 10 w4 0] c e by simp
  let ?w5i = "info ''Sozdajte PIN-kod (4-8 cifr).'' ?w5"
  have l5: "stdin_lines ?w5i = (''1234'' @ [NL]) # [''1234'' @ [NL], ''10.00'' @ [NL]]"
    using l4 by simp
  obtain w6 where a6: "ask_digits ''Vvedite PIN'' 4 (Some 8) ?w5i = (Inr ''1234'', w6)"
    and l6: "stdin_lines w6 = (''1234'' @ [NL]) # [''10.00'' @ [NL]]"
    and f6: "disk w6 = NoFile"
    using ask_digits_line [OF l5, of 4 8 "''Vvedite PIN''"] f4 strip_1234 isdigit_1234
    by auto
  obtain w7 where a7: "ask_digits ''Povtorite PIN'' 4 (Some 8) w6 = (Inr ''1234'', w7)"
    and l7: "stdin_lines w7 = [''10.00'' @ [NL]]"
    and f7: "disk w7 = NoFile"
    using ask_digits_line [OF l6, of 4 8 "''Povtorite PIN''"] f6 strip_1234 isdigit_1234
    by auto
  have p: "ask_pin_create ?w5 = (Inr ''1234'', w7)"
    using a6 a7 unfolding ask_pin_create_def by (subst ask_pin_create_loop.simps) simp
  obtain sh hh w8 where m: "make_pin_record ''1234'' w7 = ((sh, hh), w8)"
    by (cases "make_pin_record ''1234'' w7") auto
  have f8: "disk w8 = NoFile" "stdin_lines w8 = [''10.00'' @ [NL]]"
    using make_pin_record_fields [of "''1234''" w7] m f7 l7 by simp_all
  obtain cr w9 where u: "utc_now_iso w8 = (cr, w9)"
    by (cases "utc_now_iso w8")
  have f9: "disk w9 = NoFile" "stdin_lines w9 = [''10.00'' @ [NL]]"
    using utc_now_iso_fields [of w8] u f8 by simp_all
  let ?a = "\<lparr> account_number = ''0000000005'', name = ''Kirill'', surname = ''Momotov'',
              id_number = ''ID123'', pin_salt_hex = sh, pin_hash_hex = hh, balance_cents = 0,
              created_at = cr \<rparr>"
  have "load NoFile = Inr empty_document" by (simp add: load_def)
  then obtain f where up: "upsert_account ?a (disk w9) = Inr f"
    using upsert_account_succeeds [of NoFile empty_document ?a] f9 by auto
  have "new_account_record create_world =
          Some (Inr ?a, show_account_created ''0000000005'' (w9\<lparr> disk := f \<rparr>))"
    using a2 a3 a4 g p m u up by (simp add: new_account_record_def)
  moreover have "stdin_lines (show_account_created ''0000000005'' (w9\<lparr> disk := f \<rparr>)) =
      [''10.00'' @ [NL]]"
    using f9 by simp
  ultimately show ?thesis by simp
qed


lemma ask_money_amount_value:
  assumes "stdin_lines w = lin # rest" and "lin \<noteq> []"
    and "Decimal (replace_commas (strip (chop_newline lin))) = Some d"
    and "\<not> is_nan d" "\<not> is_infinite d" "\<not> below_zero d"
    and "to_cents d = Inr c"
  shows "\<exists>w1. ask_money_amount p w = (Inr c, w1) \<and> stdin_lines w1 = rest"
  using ask_money_amount_line [OF assms(1-6), of p] assms(7)
  by (cases "ask_money_amount p w") auto

lemma flow_create_account_create_world:
  "\<exists>a w'. flow_create_account create_world = Some (Inr a, w') \<and> balance_cents a = 1000"
proof -
  let ?q = "''Vnesite summu na schet (naprimer 100 ili 100.50)''"
  obtain a w1 where n: "new_account_record create_world = Some (Inr a, w1)"
    and l: "stdin_lines w1 = [''10.00'' @ [NL]]"
    using new_account_record_create_world by blast
  have b: "balance_cents a = 0"
    and g: "get_account (account_number a) (disk w1) = Inr (Some a)"
    using new_account_record_persisted [OF n] by simp_all
  obtain data where ld: "load (disk w1) = Inr data"
    using get_account_load_ok [OF g] by blast
  obtain w2 where am: "ask_money_amount ?q w1 = (Inr 1000, w2)"
    using ask_money_amount_value [OF l _ Decimal_10_00 _ _ _ to_cents_10_00, of ?q]
    by (auto simp: is_nan_def is_infinite_def below_zero_def)
  obtain w' where "initial_deposit a w1 = (Inr (a\<lparr> balance_cents := balance_cents a + 1000 \<rparr>), w')"
    using initial_deposit_accepts [OF am _ ld, of a] by auto
  then have "flow_create_account create_world =
      Some (Inr (a\<lparr> balance_cents := balance_cents a + 1000 \<rparr>), w')"
    using n by (simp add: flow_create_account_def)
  then show ?thesis using b by auto
qed

text \<open>
  A storage file that holds the account of the storage test (balance 1.00), and the lines
  that the user types.
\<close>

definition stored_world :: "string list \<Rightarrow> world" where
  "stored_world ls = sample_world\<lparr>
     stdin_lines := feed_stdin ls,
     disk := Json (JObj [(''accounts'', JObj [(''0000000001'', asdict sample_account)])]) \<rparr>"

lemma account_inv_stored:
  assumes "disk w = disk (stored_world ls)"
  shows "account_inv sample_account w"
proof -
  have u: "upsert_account sample_account NoFile =
     Inr (Json (JObj [(''accounts'', JObj [(''0000000001'', asdict sample_account)])]))"
    by (simp add: upsert_account_def load_def empty_document_def save_def sample_account_def)
  have "get_account (account_number sample_account) (disk w) = Inr (Some sample_account)"
    using get_account_after_upsert [OF u] assms by (simp add: stored_world_def)
  then show ?thesis by (simp add: account_inv_def sample_account_def)
qed

lemma strip_choice_3: "strip (chop_newline (''3'' @ [NL])) = ''3''"
  by code_simp

lemma strip_choice_0: "strip (chop_newline (''0'' @ [NL])) = ''0''"
  by code_simp

lemma initial_deposit_stored:
  "\<exists>w'. initial_deposit sample_account (stored_world [''10.00'']) =
          (Inr (sample_account\<lparr> balance_cents := 1100 \<rparr>), w')"
proof -
  let ?q = "''Vnesite summu na schet (naprimer 100 ili 100.50)''"
  let ?w = "stored_world [''10.00'']"
  have l: "stdin_lines ?w = (''10.00'' @ [NL]) # []"
    by (simp add: stored_world_def feed_stdin_def)
  obtain data where ld: "load (disk ?w) = Inr data"
    using account_inv_load_ok [OF account_inv_stored [of ?w "[''10.00'']"]] by auto
  obtain w2 where am: "ask_money_amount ?q ?w = (Inr 1000, w2)"
    using ask_money_amount_value [OF l _ Decimal_10_00 _ _ _ to_cents_10_00, of ?q]
    by (auto simp: is_nan_def is_infinite_def below_zero_def)
  show ?thesis
    using initial_deposit_accepts [OF am _ ld, of sample_account]
    by (auto simp: sample_account_def)
qed

lemma session_deposit_stored:
  "\<exists>w'. session_deposit sample_account (stored_world [''5.00'']) =
          (Inr True, sample_account\<lparr> balance_cents := 600 \<rparr>, w')"
proof -
  let ?q = "''Skol'ko vnesti?''"
  let ?w = "stored_world [''5.00'']"
  have l: "stdin_lines ?w = (''5.00'' @ [NL]) # []"
    by (simp add: stored_world_def feed_stdin_def)
  obtain data where ld: "load (disk ?w) = Inr data"
    using account_inv_load_ok [OF account_inv_stored [of ?w "[''5.00'']"]] by auto
  obtain w2 where am: "ask_money_amount ?q ?w = (Inr 500, w2)"
    using ask_money_amount_value [OF l _ Decimal_5_00 _ _ _ to_cents_5_00, of ?q]
    by (auto simp: is_nan_def is_infinite_def below_zero_def)
  show ?thesis
    using session_deposit_accepts [OF am _ ld, of sample_account]
    by (auto simp: sample_account_def)
qed

lemma session_withdraw_stored:
  "\<exists>w'. session_withdraw sample_account (stored_world [''1.00'']) =
          (Inr True, sample_account\<lparr> balance_cents := 0 \<rparr>, w')"
proof -
  let ?q = "''Skol'ko snyat'?''"
  let ?w = "stored_world [''1.00'']"
  have l: "stdin_lines ?w = (''1.00'' @ [NL]) # []"
    by (simp add: stored_world_def feed_stdin_def)
  obtain data where ld: "load (disk ?w) = Inr data"
    using account_inv_load_ok [OF account_inv_stored [of ?w "[''1.00'']"]] by auto
  obtain w2 where am: "ask_money_amount ?q ?w = (Inr 100, w2)"
    using ask_money_amount_value [OF l _ Decimal_1_00 _ _ _ to_cents_1_00, of ?q]
    by (auto simp: is_nan_def is_infinite_def below_zero_def)
  show ?thesis
    using session_withdraw_accepts [OF am _ _ ld, of sample_account]
    by (auto simp: sample_account_def)
qed

lemma menu_main_value:
  assumes "stdin_lines w = lin # rest" and "lin \<noteq> []"
    and "strip (chop_newline lin) = c"
  shows "\<exists>w1. menu_main w = (Inr c, w1) \<and> stdin_lines w1 = rest \<and> disk w1 = disk w"
proof -
  obtain r w1 where e: "menu_main w = (r, w1)" by (cases "menu_main w")
  have "r = Inr c" and l: "stdin_lines w1 = rest"
    using menu_main_line [OF assms(1,2)] assms(3) e by simp_all
  moreover have "disk w1 = disk w"
    using menu_main_io_ok [OF e] by (simp add: io_ok_def)
  ultimately show ?thesis using e by blast
qed

lemma session_step_stored:
  "\<exists>w'. session_step sample_account (stored_world [''2'', ''1.00'']) =
          (Inr True, sample_account\<lparr> balance_cents := 0 \<rparr>, w')"
proof -
  let ?q = "''Skol'ko snyat'?''"
  let ?w = "stored_world [''2'', ''1.00'']"
  have l: "stdin_lines ?w = (''2'' @ [NL]) # [''1.00'' @ [NL]]"
    by (simp add: stored_world_def feed_stdin_def)
  obtain w1 where m: "menu_main ?w = (Inr ''2'', w1)"
    and l1: "stdin_lines w1 = (''1.00'' @ [NL]) # []" and d1: "disk w1 = disk ?w"
    using menu_main_value [OF l _ strip_choice_2] by auto
  obtain data where ld: "load (disk w1) = Inr data"
    using account_inv_load_ok [OF account_inv_stored [OF d1]] by auto
  obtain w2 where am: "ask_money_amount ?q w1 = (Inr 100, w2)"
    using ask_money_amount_value [OF l1 _ Decimal_1_00 _ _ _ to_cents_1_00, of ?q]
    by (auto simp: is_nan_def is_infinite_def below_zero_def)
  obtain w' where sw: "session_withdraw sample_account w1 =
      (Inr True, sample_account\<lparr> balance_cents := 0 \<rparr>, w')"
    using session_withdraw_accepts [OF am _ _ ld, of sample_account]
    by (auto simp: sample_account_def)
  have "session_step sample_account ?w =
      (Inr True, sample_account\<lparr> balance_cents := 0 \<rparr>, w')"
    by (simp add: session_step_def m sw)
  then show ?thesis by blast
qed

lemma flow_session_stored:
  "\<exists>w'. flow_session sample_account (stored_world [''3'', ''0'']) = (Inr (), sample_account, w')"
proof -
  let ?w = "stored_world [''3'', ''0'']"
  have l: "stdin_lines ?w = (''3'' @ [NL]) # [''0'' @ [NL]]"
    by (simp add: stored_world_def feed_stdin_def)
  obtain w1 where m: "menu_main ?w = (Inr ''3'', w1)"
    and l1: "stdin_lines w1 = (''0'' @ [NL]) # []"
    using menu_main_value [OF l _ strip_choice_3] by auto
  let ?w2 = "show_balance (balance_cents sample_account) w1"
  have s1: "session_step sample_account ?w = (Inr True, sample_account, ?w2)"
    by (simp add: session_step_def m)
  have l2: "stdin_lines ?w2 = (''0'' @ [NL]) # []" using l1 by simp
  obtain w3 where m2: "menu_main ?w2 = (Inr ''0'', w3)"
    using menu_main_value [OF l2 _ strip_choice_0] by auto
  have s2: "session_step sample_account ?w2 =
      (Inr False, sample_account, info ''Vyhod v glavnoe menyu.'' w3)"
    by (simp add: session_step_def m2)
  have f2: "flow_session sample_account ?w2 =
      (Inr (), sample_account, info ''Vyhod v glavnoe menyu.'' w3)"
    by (subst flow_session.simps) (simp add: s2)
  have "flow_session sample_account ?w =
      (Inr (), sample_account, info ''Vyhod v glavnoe menyu.'' w3)"
    by (subst flow_session.simps) (simp add: s1 f2)
  then show ?thesis by blast
qed

text \<open>
  Claim C3.  The account invariant \<open>account_inv a w\<close> says that the balance of the account
  object \<open>a\<close> is not negative and that the record stored under its number is \<open>a\<close> itself,
  so that the stored balance is the same, non-negative, number.  The first part of the
  creation flow stores the new record with balance 0 and establishes the invariant; the
  initial deposit and the whole creation flow keep it; and so do the deposit, the
  withdrawal, every step of the session menu (the balance display among them) and the
  whole session, whatever they return.
\<close>

theorem balance_never_negative:
  "(account_inv a w \<longleftrightarrow>
      0 \<le> balance_cents a \<and> get_account (account_number a) (disk w) = Inr (Some a)) \<and>
   (new_account_record w = Some (Inr a, w') \<longrightarrow> balance_cents a = 0 \<and> account_inv a w') \<and>
   (account_inv a w \<and> initial_deposit a w = (Inr a', w') \<longrightarrow> account_inv a' w') \<and>
   (flow_create_account w = Some (Inr a, w') \<longrightarrow> account_inv a w') \<and>
   (account_inv a w \<and> session_deposit a w = (r, a', w') \<longrightarrow> account_inv a' w') \<and>
   (account_inv a w \<and> session_withdraw a w = (r, a', w') \<longrightarrow> account_inv a' w') \<and>
   (account_inv a w \<and> session_step a w = (r, a', w') \<longrightarrow> account_inv a' w') \<and>
   (account_inv a w \<and> flow_session a w = (q, a', w') \<longrightarrow> account_inv a' w')"
proof -
  have 0: "account_inv a w \<longleftrightarrow>
      0 \<le> balance_cents a \<and> get_account (account_number a) (disk w) = Inr (Some a)"
    by (simp add: account_inv_def)
  have 1: "new_account_record w = Some (Inr a, w') \<longrightarrow> balance_cents a = 0 \<and> account_inv a w'"
    using new_account_record_persisted [of w a w'] new_account_record_inv [of w a w'] by blast
  have 2: "account_inv a w \<and> initial_deposit a w = (Inr a', w') \<longrightarrow> account_inv a' w'"
    using initial_deposit_inv [of a w a' w'] by blast
  have 3: "flow_create_account w = Some (Inr a, w') \<longrightarrow> account_inv a w'"
    using flow_create_account_inv [of w a w'] by blast
  have 4: "account_inv a w \<and> session_deposit a w = (r, a', w') \<longrightarrow> account_inv a' w'"
    using session_deposit_inv [of a w r a' w'] by blast
  have 5: "account_inv a w \<and> session_withdraw a w = (r, a', w') \<longrightarrow> account_inv a' w'"
    using session_withdraw_inv [of a w r a' w'] by blast
  have 6: "account_inv a w \<and> session_step a w = (r, a', w') \<longrightarrow> account_inv a' w'"
    using session_step_inv [of a w r a' w'] by blast
  have 7: "account_inv a w \<and> flow_session a w = (q, a', w') \<longrightarrow> account_inv a' w'"
    using flow_session_inv [of a w q a' w'] by blast
  show ?thesis by (intro conjI 0 1 2 3 4 5 6 7)
qed

text \<open>
  Claim C3 along the creation flow of the repository's test (the account is created with
  balance 0 and the initial deposit of 10.00 brings it to 1000 cents), and on the stored
  account with balance 1.00: initial deposit of 10.00, deposit of 5.00, withdrawal of the
  whole balance, the same through the menu, and a session that shows the balance and exits.
\<close>

theorem balance_never_negative_witness:
  "(\<exists>a w'. new_account_record create_world = Some (Inr a, w') \<and>
           balance_cents a = 0 \<and> account_inv a w') \<and>
   (\<exists>a w'. flow_create_account create_world = Some (Inr a, w') \<and>
           balance_cents a = 1000 \<and> account_inv a w') \<and>
   account_inv sample_account (stored_world [''10.00'']) \<and>
   (\<exists>w'. initial_deposit sample_account (stored_world [''10.00'']) =
           (Inr (sample_account\<lparr> balance_cents := 1100 \<rparr>), w') \<and>
         account_inv (sample_account\<lparr> balance_cents := 1100 \<rparr>) w') \<and>
   account_inv sample_account (stored_world [''5.00'']) \<and>
   (\<exists>w'. session_deposit sample_account (stored_world [''5.00'']) =
           (Inr True, sample_account\<lparr> balance_cents := 600 \<rparr>, w') \<and>
         account_inv (sample_account\<lparr> balance_cents := 600 \<rparr>) w') \<and>
   account_inv sample_account (stored_world [''1.00'']) \<and>
   (\<exists>w'. session_withdraw sample_account (stored_world [''1.00'']) =
           (Inr True, sample_account\<lparr> balance_cents := 0 \<rparr>, w') \<and>
         account_inv (sample_account\<lparr> balance_cents := 0 \<rparr>) w') \<and>
   account_inv sample_account (stored_world [''2'', ''1.00'']) \<and>
   (\<exists>w'. session_step sample_account (stored_world [''2'', ''1.00'']) =
           (Inr True, sample_account\<lparr> balance_cents := 0 \<rparr>, w') \<and>
         account_inv (sample_account\<lparr> balance_cents := 0 \<rparr>) w') \<and>
   account_inv sample_account (stored_world [''3'', ''0'']) \<and>
   (\<exists>w'. flow_session sample_account (stored_world [''3'', ''0'']) =
           (Inr (), sample_account, w') \<and>
         account_inv sample_account w')"
proof -
  have i: "account_inv sample_account (stored_world ls)" for ls
    by (rule account_inv_stored [of _ ls]) simp
  have c1: "\<exists>a w'. new_account_record create_world = Some (Inr a, w') \<and>
           balance_cents a = 0 \<and> account_inv a w'"
  proof -
    obtain a w' where n: "new_account_record create_world = Some (Inr a, w')"
      using new_account_record_create_world by blast
    show ?thesis
      using n balance_never_negative [of a create_world w'] by blast
  qed
  have c2: "\<exists>a w'. flow_create_account create_world = Some (Inr a, w') \<and>
           balance_cents a = 1000 \<and> account_inv a w'"
  proof -
    obtain a w' where n: "flow_create_account create_world = Some (Inr a, w')"
      and b: "balance_cents a = 1000"
      using flow_create_account_create_world by blast
    show ?thesis
      using n b balance_never_negative [of a create_world w'] by blast
  qed
  have c3: "\<exists>w'. initial_deposit sample_account (stored_world [''10.00'']) =
           (Inr (sample_account\<lparr> balance_cents := 1100 \<rparr>), w') \<and>
         account_inv (sample_account\<lparr> balance_cents := 1100 \<rparr>) w'"
  proof -
    obtain w' where n: "initial_deposit sample_account (stored_world [''10.00'']) =
           (Inr (sample_account\<lparr> balance_cents := 1100 \<rparr>), w')"
      using initial_deposit_stored by blast
    show ?thesis
      using n i [of "[''10.00'']"]
        balance_never_negative [of sample_account "stored_world [''10.00'']" w'
          "sample_account\<lparr> balance_cents := 1100 \<rparr>"]
      by blast
  qed
  have c4: "\<exists>w'. session_deposit sample_account (stored_world [''5.00'']) =
           (Inr True, sample_account\<lparr> balance_cents := 600 \<rparr>, w') \<and>
         account_inv (sample_account\<lparr> balance_cents := 600 \<rparr>) w'"
  proof -
    obtain w' where n: "session_deposit sample_account (stored_world [''5.00'']) =
           (Inr True, sample_account\<lparr> balance_cents := 600 \<rparr>, w')"
      using session_deposit_stored by blast
    show ?thesis
      using n i [of "[''5.00'']"]
        balance_never_negative [of sample_account "stored_world [''5.00'']" w'
          "sample_account\<lparr> balance_cents := 600 \<rparr>" "Inr True"]
      by blast
  qed
  have c5: "\<exists>w'. session_withdraw sample_account (stored_world [''1.00'']) =
           (Inr True, sample_account\<lparr> balance_cents := 0 \<rparr>, w') \<and>
         account_inv (sample_account\<lparr> balance_cents := 0 \<rparr>) w'"
  proof -
    obtain w' where n: "session_withdraw sample_account (stored_world [''1.00'']) =
           (Inr True, sample_account\<lparr> balance_cents := 0 \<rparr>, w')"
      using session_withdraw_stored by blast
    show ?thesis
      using n i [of "[''1.00'']"]
        balance_never_negative [of sample_account "stored_world [''1.00'']" w'
          "sample_account\<lparr> balance_cents := 0 \<rparr>" "Inr True"]
      by blast
  qed
  have c6: "\<exists>w'. session_step sample_account (stored_world [''2'', ''1.00'']) =
           (Inr True, sample_account\<lparr> balance_cents := 0 \<rparr>, w') \<and>
         account_inv (sample_account\<lparr> balance_cents := 0 \<rparr>) w'"
  proof -
    obtain w' where n: "session_step sample_account (stored_world [''2'', ''1.00'']) =
           (Inr True, sample_account\<lparr> balance_cents := 0 \<rparr>, w')"
      using session_step_stored by blast
    show ?thesis
      using n i [of "[''2'', ''1.00'']"]
        balance_never_negative [of sample_account "stored_world [''2'', ''1.00'']" w'
          "sample_account\<lparr> balance_cents := 0 \<rparr>" "Inr True"]
      by blast
  qed
  have c7: "\<exists>w'. flow_session sample_account (stored_world [''3'', ''0'']) =
           (Inr (), sample_account, w') \<and>
         account_inv sample_account w'"
  proof -
    obtain w' where n: "flow_session sample_account (stored_world [''3'', ''0'']) =
           (Inr (), sample_account, w')"
      using flow_session_stored by blast
    show ?thesis
      using n i [of "[''3'', ''0'']"]
        balance_never_negative [of sample_account "stored_world [''3'', ''0'']" w'
          sample_account _ "Inr ()"]
      by blast
  qed
  show ?thesis
    using c1 c2 c3 c4 c5 c6 c7 i by simp
qed


section \<open>Lesson 2: properties of the fan\<close>

lemma dom_MODE_LABELS: "dom MODE_LABELS = {0, 1, 2, 3}"
  by (auto simp: MODE_LABELS_def split: if_splits)

lemma dom_new_times: "dom (time_in_mode_s new_stats) = {0, 1, 2, 3}"
  by (auto simp: new_stats_def dom_MODE_LABELS split: if_splits)

lemma time_in_mode_stats_start: "time_in_mode_s (stats_start m ts st) = time_in_mode_s st"
  by (simp add: stats_start_def Let_def split: option.splits)

lemma fan_inv_new_app: "fan_inv (new_app clk)"
  by (simp add: fan_inv_def new_app_def now_def Let_def time_in_mode_stats_start
      dom_new_times MIN_MODE_def MAX_MODE_def)

lemma on_mode_change_dom:
  assumes "on_mode_change old new ts st = Inr st'"
    and "old \<in> dom (time_in_mode_s st)"
  shows "dom (time_in_mode_s st') = dom (time_in_mode_s st)"
  using assms
  by (auto simp: on_mode_change_def Let_def split: option.splits sum.splits if_splits)

lemma on_mode_change_ok:
  assumes "old \<in> dom (time_in_mode_s st)"
  shows "\<exists>st'. on_mode_change old new ts st = Inr st'"
  using assms
  by (auto simp: on_mode_change_def Let_def split: option.splits sum.splits)

lemma change_mode_in_range:
  assumes "fan_inv app" and "MIN_MODE \<le> new" and "new \<le> MAX_MODE"
  shows "fan_inv (snd (change_mode new act app)) \<and>
         fan_mode (snd (change_mode new act app)) = new \<and>
         (\<exists>msg. fst (change_mode new act app) = Inr msg)"
proof (cases "new = fan_mode app")
  case True
  with assms show ?thesis by (simp add: change_mode_def Let_def)
next
  case False
  have old: "fan_mode app \<in> dom (time_in_mode_s (app_stats app))"
    using assms(1) by (auto simp: fan_inv_def MIN_MODE_def MAX_MODE_def)
  obtain st' where st': "on_mode_change (fan_mode app) new (clock app (ticks app)) (app_stats app) = Inr st'"
    using on_mode_change_ok [OF old] by blast
  have d: "dom (time_in_mode_s st') = {0, 1, 2, 3}"
    using on_mode_change_dom [OF st' old] assms(1) by (simp add: fan_inv_def)
  show ?thesis
    using False assms(2,3) st' d
    by (simp add: change_mode_def fan_set_mode_def now_def log_event_def fan_inv_def Let_def)
qed

lemma change_mode_out_of_range:
  assumes "fan_inv app" and "new < MIN_MODE \<or> MAX_MODE < new"
  shows "change_mode new act app = (Inl ValueError, app)"
proof -
  have "new \<noteq> fan_mode app"
    using assms by (auto simp: fan_inv_def)
  then show ?thesis
    using assms(2) by (auto simp: change_mode_def fan_set_mode_def)
qed

lemma up_inv:
  assumes "fan_inv app"
  shows "fan_inv (snd (up app)) \<and> fan_mode (snd (up app)) = min MAX_MODE (fan_mode app + 1) \<and>
         (\<exists>msg. fst (up app) = Inr msg)"
proof -
  let ?new = "if fan_mode app + 1 > MAX_MODE then MAX_MODE else fan_mode app + 1"
  have r: "MIN_MODE \<le> ?new" "?new \<le> MAX_MODE"
    using assms by (auto simp: fan_inv_def MIN_MODE_def MAX_MODE_def)
  have "up app = change_mode ?new ''UP'' app"
    by (simp add: up_def Let_def)
  moreover have "?new = min MAX_MODE (fan_mode app + 1)"
    by (simp add: min_def)
  ultimately show ?thesis
    using change_mode_in_range [OF assms r, of "''UP''"] by simp
qed

lemma down_inv:
  assumes "fan_inv app"
  shows "fan_inv (snd (down app)) \<and> fan_mode (snd (down app)) = max MIN_MODE (fan_mode app - 1) \<and>
         (\<exists>msg. fst (down app) = Inr msg)"
proof -
  let ?new = "if fan_mode app - 1 < MIN_MODE then MIN_MODE else fan_mode app - 1"
  have r: "MIN_MODE \<le> ?new" "?new \<le> MAX_MODE"
    using assms by (auto simp: fan_inv_def MIN_MODE_def MAX_MODE_def)
  have "down app = change_mode ?new ''DOWN'' app"
    by (simp add: down_def Let_def)
  moreover have "?new = max MIN_MODE (fan_mode app - 1)"
    by (simp add: max_def)
  ultimately show ?thesis
    using change_mode_in_range [OF assms r, of "''DOWN''"] by simp
qed

lemma set_mode_inv:
  assumes "fan_inv app"
  shows "fan_inv (snd (set_mode m app))"
proof (cases "m < MIN_MODE \<or> MAX_MODE < m")
  case True
  then show ?thesis
    using change_mode_out_of_range [OF assms True] assms by (simp add: set_mode_def)
next
  case False
  then have "MIN_MODE \<le> m" "m \<le> MAX_MODE" by auto
  then show ?thesis
    using change_mode_in_range [OF assms] by (simp add: set_mode_def)
qed

lemma do_call_inv: "fan_inv app \<Longrightarrow> fan_inv (snd (do_call c app))"
  by (cases c) (simp_all add: up_inv down_inv set_mode_inv)

lemma do_calls_inv: "fan_inv app \<Longrightarrow> fan_inv (do_calls cs app)"
  unfolding do_calls_def
  by (induction cs arbitrary: app) (simp_all add: do_call_inv)

text \<open>
  Claim C10.  Starting from a new application (mode 0), after any sequence of \<open>up()\<close>,
  \<open>down()\<close> and \<open>set_mode(m)\<close> calls the fan's mode is in the range 0..3; from such a
  state \<open>up()\<close> moves to the mode plus one capped at 3, \<open>down()\<close> to the mode minus one
  floored at 0 (neither raises), and \<open>set_mode(m)\<close> with \<open>m\<close> outside 0..3 raises
  ValueError and leaves the application, hence the mode, unchanged.
\<close>

theorem fan_mode_in_range:
  "0 \<le> fan_mode (do_calls cs (new_app clk)) \<and> fan_mode (do_calls cs (new_app clk)) \<le> 3 \<and>
   fan_mode (new_app clk) = 0 \<and>
   fan_mode (snd (up (do_calls cs (new_app clk)))) = min 3 (fan_mode (do_calls cs (new_app clk)) + 1) \<and>
   (\<exists>msg. fst (up (do_calls cs (new_app clk))) = Inr msg) \<and>
   fan_mode (snd (down (do_calls cs (new_app clk)))) = max 0 (fan_mode (do_calls cs (new_app clk)) - 1) \<and>
   (\<exists>msg. fst (down (do_calls cs (new_app clk))) = Inr msg) \<and>
   (m < 0 \<or> 3 < m \<longrightarrow>
      set_mode m (do_calls cs (new_app clk)) = (Inl ValueError, do_calls cs (new_app clk)))"
proof -
  let ?s = "do_calls cs (new_app clk)"
  have inv: "fan_inv ?s"
    by (rule do_calls_inv [OF fan_inv_new_app])
  have "fan_mode (new_app clk) = 0"
    by (simp add: new_app_def now_def Let_def)
  moreover have "m < 0 \<or> 3 < m \<longrightarrow> set_mode m ?s = (Inl ValueError, ?s)"
    using change_mode_out_of_range [OF inv, of m "''SET''"]
    by (simp add: set_mode_def MIN_MODE_def MAX_MODE_def)
  ultimately show ?thesis
    using inv up_inv [OF inv] down_inv [OF inv]
    by (simp add: fan_inv_def MIN_MODE_def MAX_MODE_def)
qed

theorem fan_mode_in_range_witness:
  "fan_mode (do_calls [Up, Up, SetMode 7, Up, Up, Down] (new_app (\<lambda>n. real n))) = 2 \<and>
   ((7::int) < 0 \<or> 3 < (7::int)) \<and>
   set_mode 7 (do_calls [Up, Up, SetMode 7, Up, Up, Down] (new_app (\<lambda>n. real n))) =
     (Inl ValueError, do_calls [Up, Up, SetMode 7, Up, Up, Down] (new_app (\<lambda>n. real n)))"
proof -
  have m: "fan_mode (do_calls [Up, Up, SetMode 7, Up, Up, Down] (new_app (\<lambda>n. real n))) = 2"
    by (simp add: do_calls_def up_def down_def set_mode_def change_mode_def fan_set_mode_def
        now_def log_event_def on_mode_change_def new_app_def stats_start_def new_stats_def
        dom_MODE_LABELS MIN_MODE_def MAX_MODE_def Let_def)
  show ?thesis
    using m fan_mode_in_range [of "[Up, Up, SetMode 7, Up, Up, Down]" "\<lambda>n. real n" 7]
    by simp
qed

end
